(* ===== verification/Prelude.thy ===== *)
theory Prelude
  imports Complex_Main
begin

text \<open>
  Shared vocabulary of the development: Python's float values with their
  infinities (\<open>xreal\<close>), the errors the modelled code can raise, the game-state
  interface that the simulator (\<open>pacman.py\<close>, not part of this repository) offers to
  \<open>multiAgents.py\<close>, the Manhattan distance of \<open>util.py\<close>, the search agents'
  configuration, the two loop combinators in the option monad through which the
  recursive searches are defined with \<^theory_text>\<open>partial_function (option)\<close>, the loop
  of a list comprehension whose body may raise (\<open>map_err\<close>), and lemmas on folds,
  maxima and averages shared by the components.
\<close>

named_theorems search_simps "rules that evaluate the search model on a concrete game"

section \<open>Python floats with infinities\<close>

text \<open>
  The evaluation functions return \<open>float('inf')\<close> and \<open>float('-inf')\<close> besides ordinary
  numbers. Floats are modelled as exact reals extended by the two infinities; rounding
  is not modelled. NaN never arises in the modelled code.
\<close>

datatype xreal = NegInf | Fin real | PosInf

instantiation xreal :: linorder
begin

fun less_eq_xreal :: "xreal \<Rightarrow> xreal \<Rightarrow> bool" where
  "less_eq_xreal NegInf _ = True"
| "less_eq_xreal (Fin x) NegInf = False"
| "less_eq_xreal (Fin x) (Fin y) = (x \<le> y)"
| "less_eq_xreal (Fin x) PosInf = True"
| "less_eq_xreal PosInf y = (y = PosInf)"

definition less_xreal :: "xreal \<Rightarrow> xreal \<Rightarrow> bool" where
  "less_xreal x y \<longleftrightarrow> x \<le> y \<and> \<not> y \<le> x"

instance
proof
  fix x y z :: xreal
  show "(x < y) = (x \<le> y \<and> \<not> y \<le> x)" by (simp add: less_xreal_def)
  show "x \<le> x" by (cases x) auto
  show "x \<le> y \<Longrightarrow> y \<le> z \<Longrightarrow> x \<le> z" by (cases x; cases y; cases z) auto
  show "x \<le> y \<Longrightarrow> y \<le> x \<Longrightarrow> x = y" by (cases x; cases y) auto
  show "x \<le> y \<or> y \<le> x" by (cases x; cases y) auto
qed

end

lemma xreal_less_simps [simp]:
  "NegInf < y \<longleftrightarrow> y \<noteq> NegInf"
  "x < NegInf \<longleftrightarrow> False"
  "Fin a < Fin b \<longleftrightarrow> a < b"
  "Fin a < PosInf"
  "PosInf < y \<longleftrightarrow> False"
  "x < PosInf \<longleftrightarrow> x \<noteq> PosInf"
  by (cases y; cases x; auto simp: less_xreal_def)+

lemma xreal_le_simps [simp]:
  "x \<le> PosInf"
  "Fin a \<le> NegInf \<longleftrightarrow> False"
  by (cases x; simp)+

datatype py_error = ZeroDivisionError | ValueError | NotFoundException | NameConflictException

section \<open>The game-state interface\<close>

text \<open>
  Positions are pairs of coordinates. Pacman and the food pellets sit on grid
  points, but a scared ghost moves at half speed, so coordinates are reals.
\<close>

type_synonym pos = "real \<times> real"

text \<open>\<open>game.AgentState\<close> as far as \<open>multiAgents.py\<close> reads it: \<open>getPosition()\<close> and
  \<open>scaredTimer\<close>.\<close>

record ghost_state =
  getPosition :: pos
  scaredTimer :: int

text \<open>
  The \<open>GameState\<close> methods that \<open>multiAgents.py\<close> calls, as a record of functions over an
  opaque state type \<open>'s\<close> and action type \<open>'a\<close> (\<open>Directions\<close>). \<open>getFood\<close> is
  already \<open>getFood().asList()\<close>. \<open>generatePacmanSuccessor a\<close> is
  \<open>generateSuccessor 0 a\<close> in \<open>pacman.py\<close>. Calling \<open>generateSuccessor\<close> with an
  illegal action is the simulator's failure; the searches only call it on actions
  returned by \<open>getLegalActions\<close>.
\<close>

record ('s, 'a) game =
  getLegalActions :: "'s \<Rightarrow> nat \<Rightarrow> 'a list"
  generateSuccessor :: "'s \<Rightarrow> nat \<Rightarrow> 'a \<Rightarrow> 's"
  getNumAgents :: "'s \<Rightarrow> nat"
  isWin :: "'s \<Rightarrow> bool"
  isLose :: "'s \<Rightarrow> bool"
  getScore :: "'s \<Rightarrow> real"
  getPacmanPosition :: "'s \<Rightarrow> pos"
  getFood :: "'s \<Rightarrow> pos list"
  getGhostStates :: "'s \<Rightarrow> ghost_state list"
  getCapsules :: "'s \<Rightarrow> pos list"

definition generatePacmanSuccessor :: "('s, 'a) game \<Rightarrow> 's \<Rightarrow> 'a \<Rightarrow> 's" where
  "generatePacmanSuccessor g s a = generateSuccessor g s 0 a"

text \<open>\<open>util.manhattanDistance\<close>.\<close>

definition manhattanDistance :: "pos \<Rightarrow> pos \<Rightarrow> real" where
  "manhattanDistance xy1 xy2 = \<bar>fst xy1 - fst xy2\<bar> + \<bar>snd xy1 - snd xy2\<bar>"

lemma manhattanDistance_nonneg [simp]: "0 \<le> manhattanDistance p q"
  by (simp add: manhattanDistance_def)

lemma manhattanDistance_zero_iff [simp]: "manhattanDistance p q = 0 \<longleftrightarrow> p = q"
  by (cases p; cases q) (auto simp: manhattanDistance_def)

text \<open>
  A game whose number of agents is the same in every state, as in a Pacman game
  (one Pacman and a fixed set of ghosts).
\<close>

definition agents_fixed :: "('s, 'a) game \<Rightarrow> nat \<Rightarrow> bool" where
  "agents_fixed g n \<longleftrightarrow> (\<forall>s. getNumAgents g s = n)"

section \<open>Configuration of the search agents\<close>

text \<open>
  \<open>MultiAgentSearchAgent\<close>: Pacman's index (always 0), the evaluation function
  used at the cut-off, and the ply depth \<open>int(depth)\<close>.
\<close>

record 's search_agent =
  index :: nat
  evaluationFunction :: "'s \<Rightarrow> real"
  depth :: int

text \<open>The sentinel \<open>9999999\<close> with which the minimax loops start.\<close>

abbreviation sentinel :: real where
  "sentinel \<equiv> 9999999"

section \<open>Loops in the option monad\<close>

text \<open>
  \<open>for x in xs: v = f(x); acc = step(acc, v)\<close>, where a call of \<open>f\<close> may not
  return (\<open>None\<close>).
\<close>

primrec for_opt :: "('a \<Rightarrow> 'b option) \<Rightarrow> ('c \<Rightarrow> 'b \<Rightarrow> 'c) \<Rightarrow> 'a list \<Rightarrow> 'c \<Rightarrow> 'c option" where
  "for_opt f step [] acc = Some acc"
| "for_opt f step (x # xs) acc = Option.bind (f x) (\<lambda>v. for_opt f step xs (step acc v))"

text \<open>\<open>[f(x) for x in xs]\<close>, where a call of \<open>f\<close> may not return.\<close>

primrec map_opt :: "('a \<Rightarrow> 'b option) \<Rightarrow> 'a list \<Rightarrow> 'b list option" where
  "map_opt f [] = Some []"
| "map_opt f (x # xs) = Option.bind (f x) (\<lambda>v. map_option (Cons v) (map_opt f xs))"

lemma for_opt_mono [partial_function_mono]:
  assumes "\<And>x. mono_option (\<lambda>F. C F x)"
  shows "mono_option (\<lambda>F. for_opt (\<lambda>x. C F x) step xs acc)"
proof (induction xs arbitrary: acc)
  case Nil
  then show ?case by (simp add: option.const_mono)
next
  case (Cons x xs)
  then show ?case by (simp add: bind_mono assms)
qed

lemma map_opt_mono [partial_function_mono]:
  assumes "\<And>x. mono_option (\<lambda>F. C F x)"
  shows "mono_option (\<lambda>F. map_opt (\<lambda>x. C F x) xs)"
proof (induction xs)
  case Nil
  then show ?case by (simp add: option.const_mono)
next
  case (Cons x xs)
  have "mono_option (\<lambda>F. Option.bind (map_opt (C F) xs) (\<lambda>vs. Some (v # vs)))" for v
    by (rule bind_mono [OF Cons.IH option.const_mono])
  then show ?case
    by (simp add: bind_mono assms map_conv_bind_option comp_def)
qed

text \<open>When every call returns, the loops compute the plain fold and map.\<close>

lemma for_opt_SomeD:
  "for_opt f step xs acc = Some v \<Longrightarrow> x \<in> set xs \<Longrightarrow> \<exists>w. f x = Some w"
  by (induction xs arbitrary: acc) (auto split: Option.bind_splits)

lemma for_opt_SomeE:
  "for_opt f step xs acc = Some v \<Longrightarrow> \<exists>ws. list_all2 (\<lambda>x w. f x = Some w) xs ws \<and> v = foldl step acc ws"
proof (induction xs arbitrary: acc)
  case (Cons x xs)
  then obtain w where "f x = Some w" "for_opt f step xs (step acc w) = Some v"
    by (auto split: Option.bind_splits)
  with Cons.IH show ?case by (fastforce simp: list_all2_Cons1)
qed simp

lemma list_all2_in_set2: "list_all2 P xs ys \<Longrightarrow> y \<in> set ys \<Longrightarrow> \<exists>x\<in>set xs. P x y"
  by (induction rule: list_all2_induct) auto

lemma list_all2_compare:
  assumes "list_all2 P xs as" "list_all2 Q xs bs"
    and "\<And>x a b. x \<in> set xs \<Longrightarrow> P x a \<Longrightarrow> Q x b \<Longrightarrow> a \<le> b"
  shows "list_all2 (\<le>) as bs"
  using assms
proof (induction xs arbitrary: as bs)
  case (Cons x xs)
  then show ?case by (fastforce simp: list_all2_Cons1)
qed simp

text \<open>
  The root loops of the agents: a running best value, replaced together with the best
  action when a child's value (mapped by \<open>h\<close> into the type of the running value) is
  strictly greater. When such a loop returns, it returns the action it started with,
  if no child beats the starting value, or else the first child of greatest value.
\<close>

lemma argmax_loop_Some:
  fixes R :: "'a list \<Rightarrow> 'e::linorder \<Rightarrow> 'a option \<Rightarrow> 'a option option" and h :: "real \<Rightarrow> 'e"
  assumes nil: "\<And>e r. R [] e r = Some r"
    and cons: "\<And>a as e r. R (a # as) e r =
                 Option.bind (f a) (\<lambda>v. if e < h v then R as (h v) (Some a) else R as e r)"
    and h: "\<And>v w. h v < h w \<longleftrightarrow> v < w"
  shows "R as e r = Some res \<Longrightarrow>
   (res = r \<and> (\<forall>b\<in>set as. \<exists>w. f b = Some w \<and> h w \<le> e)) \<or>
   (\<exists>pre a post v. as = pre @ a # post \<and> res = Some a \<and> f a = Some v \<and> e < h v \<and>
      (\<forall>b\<in>set pre. \<exists>w. f b = Some w \<and> w < v) \<and> (\<forall>b\<in>set post. \<exists>w. f b = Some w \<and> w \<le> v))"
proof (induction as arbitrary: e r)
  case Nil
  then show ?case by (simp add: nil)
next
  case (Cons b bs)
  have hle: "h x \<le> h y \<longleftrightarrow> x \<le> y" for x y using h [of y x] by (simp add: not_less [symmetric])
  from Cons.prems obtain v where v: "f b = Some v" by (cases "f b") (auto simp: cons)
  show ?case
  proof (cases "e < h v")
    case True
    with Cons.prems v have "R bs (h v) (Some b) = Some res" by (simp add: cons)
    from Cons.IH [OF this] show ?thesis
    proof (elim disjE exE conjE)
      assume "res = Some b" "\<forall>c\<in>set bs. \<exists>w. f c = Some w \<and> h w \<le> h v"
      with v True hle show ?thesis by (intro disjI2 exI [of _ "[]"]) auto
    next
      fix pre a post v' assume p: "bs = pre @ a # post" "res = Some a" "f a = Some v'" "h v < h v'"
        "\<forall>c\<in>set pre. \<exists>w. f c = Some w \<and> w < v'" "\<forall>c\<in>set post. \<exists>w. f c = Some w \<and> w \<le> v'"
      from p(4) h have "v < v'" by blast
      with v True p show ?thesis by (intro disjI2 exI [of _ "b # pre"]) (auto intro: order.strict_trans)
    qed
  next
    case False
    with Cons.prems v have "R bs e r = Some res" by (simp add: cons)
    from Cons.IH [OF this] show ?thesis
    proof (elim disjE exE conjE)
      assume "res = r" "\<forall>c\<in>set bs. \<exists>w. f c = Some w \<and> h w \<le> e"
      with v False show ?thesis by (simp add: not_less)
    next
      fix pre a post v' assume p: "bs = pre @ a # post" "res = Some a" "f a = Some v'" "e < h v'"
        "\<forall>c\<in>set pre. \<exists>w. f c = Some w \<and> w < v'" "\<forall>c\<in>set post. \<exists>w. f c = Some w \<and> w \<le> v'"
      have "h v < h v'" using False p(4) by (metis not_less order.strict_trans1)
      with h have "v < v'" by blast
      with v p show ?thesis by (intro disjI2 exI [of _ "b # pre"]) auto
    qed
  qed
qed

lemma for_opt_Some:
  "(\<And>x. x \<in> set xs \<Longrightarrow> f x = Some (h x)) \<Longrightarrow> for_opt f step xs acc = Some (foldl step acc (map h xs))"
  by (induction xs arbitrary: acc) auto

lemma map_opt_Some:
  "(\<And>x. x \<in> set xs \<Longrightarrow> f x = Some (h x)) \<Longrightarrow> map_opt f xs = Some (map h xs)"
  by (induction xs) auto

text \<open>A loop whose body also returns a log: the logs of the iterations, in order.\<close>

lemma for_opt_log:
  "(\<And>x. x \<in> set xs \<Longrightarrow> f x = Some (h x, lg x)) \<Longrightarrow>
   for_opt f (\<lambda>(m, l) (v, l'). (step m v, l @ l')) xs (acc, L) =
     Some (foldl step acc (map h xs), L @ concat (map lg xs))"
  by (induction xs arbitrary: acc L) simp_all

lemma for_opt_returns [simp]:
  "for_opt (\<lambda>x. Some (h x)) step xs acc = Some (foldl step acc (map h xs))"
  by (rule for_opt_Some) simp

lemma map_opt_returns [simp]: "map_opt (\<lambda>x. Some (h x)) xs = Some (map h xs)"
  by (rule map_opt_Some) simp

lemma map_opt_map: "map_opt f (map h xs) = map_opt (\<lambda>x. f (h x)) xs"
  by (induction xs) simp_all

lemma map_opt_SomeD: "map_opt f xs = Some vs \<Longrightarrow> list_all2 (\<lambda>x v. f x = Some v) xs vs"
  by (induction xs arbitrary: vs) (auto split: Option.bind_splits)

section \<open>Bounds of maxima and averages\<close>

lemma Min_list_bounds:
  "vs \<noteq> [] \<Longrightarrow> (\<And>v. v \<in> set vs \<Longrightarrow> lo \<le> v \<and> v \<le> hi) \<Longrightarrow>
   lo \<le> Min (set vs) \<and> Min (set vs) \<le> (hi::real)"
  by (cases vs) (auto simp: Min_ge_iff Min_le_iff)

lemma sum_list_le_all2: "list_all2 (\<le>) as bs \<Longrightarrow> sum_list as \<le> sum_list (bs :: real list)"
  by (induction rule: list_all2_induct) auto

lemma abs_le_bounds: "\<bar>x\<bar> \<le> (c::real) \<Longrightarrow> - c \<le> x \<and> x \<le> c"
  by (metis abs_le_iff minus_le_iff)

lemma Max_list_bounds:
  "vs \<noteq> [] \<Longrightarrow> (\<And>v. v \<in> set vs \<Longrightarrow> lo \<le> v \<and> v \<le> hi) \<Longrightarrow>
   lo \<le> Max (set vs) \<and> Max (set vs) \<le> (hi::real)"
  by (cases vs) (auto simp: Max_ge_iff Max_le_iff)

lemma average_bounds:
  assumes "vs \<noteq> []" "\<And>v. v \<in> set vs \<Longrightarrow> lo \<le> v \<and> v \<le> hi"
  shows "lo \<le> sum_list vs / real (length vs) \<and> sum_list vs / real (length vs) \<le> (hi::real)"
proof -
  have "real (length vs) * lo \<le> sum_list vs"
    using sum_list_mono [of vs "\<lambda>_. lo" id] assms(2) by (simp add: sum_list_triv)
  moreover have "sum_list vs \<le> real (length vs) * hi"
    using sum_list_mono [of vs id "\<lambda>_. hi"] assms(2) by (simp add: sum_list_triv)
  moreover have "0 < real (length vs)" using assms(1) by simp
  ultimately show ?thesis by (simp add: divide_le_eq le_divide_eq mult.commute)
qed

section \<open>Loops that may raise\<close>

text \<open>
  A Python list comprehension whose body may raise: the first exception of the
  iteration is the result, otherwise the list of values.
\<close>

primrec map_err :: "('a \<Rightarrow> 'e + 'b) \<Rightarrow> 'a list \<Rightarrow> 'e + 'b list" where
  "map_err f [] = Inr []"
| "map_err f (x # xs) = (case f x of Inl e \<Rightarrow> Inl e
     | Inr v \<Rightarrow> (case map_err f xs of Inl e \<Rightarrow> Inl e | Inr vs \<Rightarrow> Inr (v # vs)))"

lemma map_err_Inr_iff: "map_err f xs = Inr vs \<longleftrightarrow> list_all2 (\<lambda>x v. f x = Inr v) xs vs"
proof (induction xs arbitrary: vs)
  case (Cons x xs)
  then show ?case by (cases "f x"; cases "map_err f xs") (auto simp: list_all2_Cons1)
qed auto

lemma map_err_InrD: "map_err f xs = Inr vs \<Longrightarrow> x \<in> set xs \<Longrightarrow> \<exists>v. f x = Inr v"
  by (induction xs arbitrary: vs) (auto split: sum.splits)

lemma map_err_InlD: "map_err f xs = Inl e \<Longrightarrow> \<exists>x\<in>set xs. f x = Inl e"
  by (induction xs) (auto split: sum.splits)

lemma map_err_Inl: "x \<in> set xs \<Longrightarrow> f x = Inl e \<Longrightarrow> \<exists>e'. map_err f xs = Inl e'"
  by (induction xs) (auto split: sum.splits)

section \<open>Folds of max and min\<close>

lemma if_less_min: "(if (a::'a::linorder) < d then a else d) = min d a"
  by (auto simp: min_def)

lemma foldl_min_Min: "foldl min (a::'a::linorder) xs = Min (set (a # xs))"
proof -
  have "(\<lambda>x a. min a x) = (min :: 'a \<Rightarrow> 'a \<Rightarrow> 'a)" by (auto simp: min.commute fun_eq_iff)
  then show ?thesis using Min.set_eq_fold [of a xs] by (simp add: foldl_conv_fold)
qed

lemma foldl_max_Max: "foldl max (a::'a::linorder) xs = Max (set (a # xs))"
proof -
  have "(\<lambda>x a. max a x) = (max :: 'a \<Rightarrow> 'a \<Rightarrow> 'a)" by (auto simp: max.commute fun_eq_iff)
  then show ?thesis using Max.set_eq_fold [of a xs] by (simp add: foldl_conv_fold)
qed

lemma Min_insert_above:
  "finite A \<Longrightarrow> y \<in> A \<Longrightarrow> y \<le> (x::'a::linorder) \<Longrightarrow> Min (insert x A) = Min A"
  by (metis Min_insert Min_le empty_iff min.absorb2 order.trans)

lemma Max_insert_below:
  "finite A \<Longrightarrow> y \<in> A \<Longrightarrow> (x::'a::linorder) \<le> y \<Longrightarrow> Max (insert x A) = Max A"
  by (metis Max_insert Max_ge empty_iff max.absorb2 order.trans)

lemma foldl_max_ge_acc: "(a::'a::linorder) \<le> foldl max a xs"
  by (induction xs arbitrary: a) (auto intro: order.trans [OF max.cobounded1])

lemma foldl_min_le_acc: "foldl min a xs \<le> (a::'a::linorder)"
  by (induction xs arbitrary: a) (auto intro: order.trans [OF _ min.cobounded1])

lemma foldl_max_bounded:
  "(a::'a::linorder) \<le> c \<Longrightarrow> (\<And>x. x \<in> set xs \<Longrightarrow> x \<le> c) \<Longrightarrow> foldl max a xs \<le> c"
  by (induction xs arbitrary: a) auto

text \<open>Comparing the folds of two lists related pointwise by \<open>\<le>\<close>.\<close>

lemma foldl_max_le_Max_all2:
  assumes "list_all2 (\<le>) as bs" "bs \<noteq> []" "acc \<le> Max (set bs)"
  shows "foldl max acc as \<le> Max (set (bs :: real list))"
proof (rule foldl_max_bounded [OF assms(3)])
  fix x assume "x \<in> set as"
  then obtain j where "j < length as" "as ! j = x" by (auto simp: in_set_conv_nth)
  with assms(1) show "x \<le> Max (set bs)"
    by (metis Max_ge finite_set list_all2_conv_all_nth nth_mem order.trans)
qed

lemma foldl_min_le_average_all2:
  assumes "list_all2 (\<le>) as bs" "as \<noteq> []"
  shows "foldl min acc as \<le> sum_list bs / real (length (bs :: real list))"
proof -
  have "foldl min acc as \<le> Min (set as)" using assms(2) by (simp add: foldl_min_Min Min_le_iff)
  also have "Min (set as) \<le> sum_list as / real (length as)"
    using average_bounds [of as "Min (set as)" "Max (set as)"] assms(2) by simp
  also have "\<dots> \<le> sum_list bs / real (length bs)"
    using sum_list_le_all2 [OF assms(1)] list_all2_lengthD [OF assms(1)]
    by (simp add: divide_right_mono)
  finally show ?thesis .
qed

text \<open>The minimum of a list lies strictly below its mean exactly when the list is not constant.\<close>

lemma Min_less_average_iff:
  assumes ne: "vs \<noteq> []"
  shows "Min (set vs) < sum_list vs / real (length vs) \<longleftrightarrow> (\<exists>v\<in>set vs. v \<noteq> hd (vs :: real list))"
proof -
  let ?m = "Min (set vs)"
  have m: "?m \<in> set vs" and hd: "hd vs \<in> set vs" using ne by simp_all
  have nn: "\<And>x. x \<in> set (map (\<lambda>v. v - ?m) vs) \<Longrightarrow> 0 \<le> x" by auto
  have "?m < sum_list vs / real (length vs) \<longleftrightarrow> 0 < sum_list (map (\<lambda>v. v - ?m) vs)"
    using ne by (simp add: sum_list_subtractf sum_list_triv pos_less_divide_eq mult.commute)
  also have "\<dots> \<longleftrightarrow> (\<exists>v\<in>set vs. v \<noteq> ?m)"
    using sum_list_nonneg_eq_0_iff [of "map (\<lambda>v. v - ?m) vs"] sum_list_nonneg [of "map (\<lambda>v. v - ?m) vs"] nn
    by (auto simp: order_less_le)
  also have "\<dots> \<longleftrightarrow> (\<exists>v\<in>set vs. v \<noteq> hd vs)" using m hd by metis
  finally show ?thesis .
qed

text \<open>
  A maximising and a minimising loop in the option monad against the maximum and the
  mean of another search of the same children, each child compared.
\<close>

lemma for_opt_max_le_Max:
  assumes "for_opt f max xs acc = Some a" "map_opt h xs = Some vs" "xs \<noteq> []"
    and "\<And>x w v. x \<in> set xs \<Longrightarrow> f x = Some w \<Longrightarrow> h x = Some v \<Longrightarrow> w \<le> v"
    and "\<And>x v. x \<in> set xs \<Longrightarrow> h x = Some v \<Longrightarrow> acc \<le> v"
  shows "a \<le> Max (set (vs :: real list))"
proof -
  obtain ws where ws: "list_all2 (\<lambda>x w. f x = Some w) xs ws" and a: "a = foldl max acc ws"
    using for_opt_SomeE [OF assms(1)] by blast
  have vs: "list_all2 (\<lambda>x v. h x = Some v) xs vs" using map_opt_SomeD [OF assms(2)] .
  have le: "list_all2 (\<le>) ws vs" using list_all2_compare [OF ws vs] assms(4) by blast
  have ne: "vs \<noteq> []" using vs assms(3) by (auto dest: list_all2_lengthD)
  then obtain v where v: "v \<in> set vs" by (cases vs) auto
  then have "acc \<le> v" using list_all2_in_set2 [OF vs v] assms(5) by blast
  with v have "acc \<le> Max (set vs)" by (meson Max_ge finite_set order.trans)
  then show ?thesis using foldl_max_le_Max_all2 [OF le ne] a by simp
qed

lemma for_opt_min_le_average:
  assumes "for_opt f min xs acc = Some a" "map_opt h xs = Some vs" "xs \<noteq> []"
    and "\<And>x w v. x \<in> set xs \<Longrightarrow> f x = Some w \<Longrightarrow> h x = Some v \<Longrightarrow> w \<le> v"
  shows "a \<le> sum_list vs / real (length (vs :: real list))"
proof -
  obtain ws where ws: "list_all2 (\<lambda>x w. f x = Some w) xs ws" and a: "a = foldl min acc ws"
    using for_opt_SomeE [OF assms(1)] by blast
  have vs: "list_all2 (\<lambda>x v. h x = Some v) xs vs" using map_opt_SomeD [OF assms(2)] .
  have le: "list_all2 (\<le>) ws vs" using list_all2_compare [OF ws vs] assms(4) by blast
  have "ws \<noteq> []" using ws assms(3) by (auto dest: list_all2_lengthD)
  then show ?thesis using foldl_min_le_average_all2 [OF le] a by simp
qed

end
