(* ===== verification/GameTree.thy ===== *)
theory GameTree
  imports Prelude "HOL-Library.Sublist"
begin

text \<open>
  The abstract specification of the adversarial searches: finite game trees with
  Pacman's (maximising) and the ghosts' (minimising) nodes, their minimax value
  \<open>mm_val\<close> with the sentinels of the source's loops, and the alpha-beta search of
  \<open>AlphaBetaAgent\<close> restated on trees (\<open>ab_val\<close>). The main result,
  \<open>ab_fail_soft\<close>, is Knuth and Moore's correctness condition in its fail-soft
  form, for the source's variant that prunes on the strict test \<open>alpha > beta\<close> and
  passes the updated bound to the following children. Beside them: the textbook
  minimax value \<open>mm_spec\<close> without sentinels and the proper trees on which the two
  agree (\<open>mm_val_spec\<close>), and the expectimax trees.
\<close>

datatype mtree = MLeaf real | MMax "mtree list" | MMin "mtree list"

text \<open>
  The value of a tree: the running maximum starts at \<open>-9999999\<close> and the running
  minimum at \<open>9999999\<close>, as in \<open>minimax\<close> of \<open>MinimaxAgent.getAction\<close>.
\<close>

fun mm_val :: "mtree \<Rightarrow> real" where
  "mm_val (MLeaf x) = x"
| "mm_val (MMax ts) = foldl max (- sentinel) (map mm_val ts)"
| "mm_val (MMin ts) = foldl min sentinel (map mm_val ts)"

text \<open>
  The textbook minimax value, without sentinels, and the trees on which it is defined:
  inner nodes have children, leaves lie within the sentinels.
\<close>

fun mm_spec :: "mtree \<Rightarrow> real" where
  "mm_spec (MLeaf x) = x"
| "mm_spec (MMax ts) = Max (set (map mm_spec ts))"
| "mm_spec (MMin ts) = Min (set (map mm_spec ts))"

fun mm_proper :: "mtree \<Rightarrow> bool" where
  "mm_proper (MLeaf x) \<longleftrightarrow> - sentinel \<le> x \<and> x \<le> sentinel"
| "mm_proper (MMax ts) \<longleftrightarrow> ts \<noteq> [] \<and> list_all mm_proper ts"
| "mm_proper (MMin ts) \<longleftrightarrow> ts \<noteq> [] \<and> list_all mm_proper ts"

text \<open>
  Alpha-beta on trees, with the loops of \<open>AlphaBetaAgent.getAction.minimax\<close>: after
  each child the running value and the bound are updated, and the remaining children
  are skipped when \<open>alpha > beta\<close>.
\<close>

fun ab_val :: "mtree \<Rightarrow> real \<Rightarrow> real \<Rightarrow> real"
  and ab_maxs :: "mtree list \<Rightarrow> real \<Rightarrow> real \<Rightarrow> real \<Rightarrow> real"
  and ab_mins :: "mtree list \<Rightarrow> real \<Rightarrow> real \<Rightarrow> real \<Rightarrow> real" where
  "ab_val (MLeaf x) a b = x"
| "ab_val (MMax ts) a b = ab_maxs ts a b (- sentinel)"
| "ab_val (MMin ts) a b = ab_mins ts a b sentinel"
| "ab_maxs [] a b m = m"
| "ab_maxs (t # ts) a b m =
     (let m' = max m (ab_val t a b); a' = max a m' in
      if a' > b then m' else ab_maxs ts a' b m')"
| "ab_mins [] a b m = m"
| "ab_mins (t # ts) a b m =
     (let m' = min m (ab_val t a b); b' = min b m' in
      if a > b' then m' else ab_mins ts a b' m')"

text \<open>
  The fail-soft condition relating the true value \<open>v\<close> of a tree to the result
  \<open>r\<close> of a search in the window \<open>[a, b]\<close>: below the window \<open>r\<close> bounds \<open>v\<close> from
  above, inside it \<open>r\<close> is exact, above it \<open>r\<close> bounds \<open>v\<close> from below.
\<close>

definition fail_soft :: "real \<Rightarrow> real \<Rightarrow> real \<Rightarrow> real \<Rightarrow> bool" where
  "fail_soft a b v r \<longleftrightarrow> (r < a \<longrightarrow> v \<le> r) \<and> (a \<le> r \<and> r \<le> b \<longrightarrow> r = v) \<and> (b < r \<longrightarrow> r \<le> v)"

lemma fail_soft_exact: "fail_soft a b v r \<Longrightarrow> a \<le> v \<Longrightarrow> v \<le> b \<Longrightarrow> r = v"
  unfolding fail_soft_def by fastforce

lemma ab_maxs_ge_acc: "m \<le> ab_maxs ts a b m"
  by (induction ts arbitrary: a m) (auto simp: Let_def intro: order.trans [OF max.cobounded1])

lemma ab_mins_le_acc: "ab_mins ts a b m \<le> m"
  by (induction ts arbitrary: b m) (auto simp: Let_def intro: order.trans [OF _ min.cobounded1])

lemma max_step_prune:
  assumes "fail_soft a b vt rt" "a \<le> m \<longrightarrow> V = m" "b < max a (max m rt)" "a \<le> b"
  shows "b < max m rt \<and> max m rt \<le> max V vt"
  using assms unfolding fail_soft_def by (auto simp: max_def split: if_splits)

lemma max_step_keep:
  assumes "fail_soft a b vt rt" "m < a \<longrightarrow> V \<le> m" "a \<le> m \<longrightarrow> V = m" "\<not> b < max a (max m rt)" "a \<le> b"
  shows "(max m rt < max a (max m rt) \<longrightarrow> max V vt \<le> max m rt) \<and>
         (max a (max m rt) \<le> max m rt \<longrightarrow> max V vt = max m rt)"
  using assms unfolding fail_soft_def by (auto simp: max_def split: if_splits)

lemma fail_soft_raise_a:
  assumes "fail_soft (max a m) b w r" "m \<le> r"
  shows "fail_soft a b w r"
  using assms unfolding fail_soft_def by (auto simp: max_def split: if_splits)

lemma min_step_prune:
  assumes "fail_soft a b vt rt" "m \<le> b \<longrightarrow> V = m" "min b (min m rt) < a" "a \<le> b"
  shows "min m rt < a \<and> min V vt \<le> min m rt"
  using assms unfolding fail_soft_def by (auto simp: min_def split: if_splits)

lemma min_step_keep:
  assumes "fail_soft a b vt rt" "b < m \<longrightarrow> m \<le> V" "m \<le> b \<longrightarrow> V = m" "\<not> min b (min m rt) < a" "a \<le> b"
  shows "(min b (min m rt) < min m rt \<longrightarrow> min m rt \<le> min V vt) \<and>
         (min m rt \<le> min b (min m rt) \<longrightarrow> min V vt = min m rt)"
  using assms unfolding fail_soft_def by (auto simp: min_def split: if_splits)

lemma fail_soft_lower_b:
  assumes "fail_soft a (min b m) w r" "r \<le> m"
  shows "fail_soft a b w r"
  using assms unfolding fail_soft_def by (auto simp: min_def split: if_splits)

text \<open>
  One pass of the loops of the pruning search: from the fail-soft condition of the
  child just searched and, when the loop goes on, that of the remaining children with
  the raised bound, the fail-soft condition of the whole loop.
\<close>

lemma ab_maxs_step:
  assumes t: "fail_soft a b vt rt" and ab: "a \<le> b"
    and inv: "m < a \<longrightarrow> V \<le> m" "a \<le> m \<longrightarrow> V = m"
    and rest: "\<not> b < max a (max m rt) \<Longrightarrow> max a (max m rt) \<le> b \<Longrightarrow>
      (max m rt < max a (max m rt) \<longrightarrow> max V vt \<le> max m rt) \<Longrightarrow>
      (max a (max m rt) \<le> max m rt \<longrightarrow> max V vt = max m rt) \<Longrightarrow>
      fail_soft (max a (max m rt)) b (foldl max (max V vt) vs) (ab_maxs ts (max a (max m rt)) b (max m rt))"
  shows "fail_soft a b (foldl max (max V vt) vs)
           (if b < max a (max m rt) then max m rt else ab_maxs ts (max a (max m rt)) b (max m rt))"
proof (cases "b < max a (max m rt)")
  case True
  with t inv ab have "b < max m rt \<and> max m rt \<le> max V vt" by (intro max_step_prune) auto
  moreover have "max V vt \<le> foldl max (max V vt) vs" by (rule foldl_max_ge_acc)
  ultimately show ?thesis using True ab by (auto simp: fail_soft_def)
next
  case False
  with t inv ab have k1: "max m rt < max a (max m rt) \<longrightarrow> max V vt \<le> max m rt"
    and k2: "max a (max m rt) \<le> max m rt \<longrightarrow> max V vt = max m rt"
    using max_step_keep by blast+
  from False have "max a (max m rt) \<le> b" by (simp only: not_less)
  from fail_soft_raise_a [OF rest [OF False this k1 k2] ab_maxs_ge_acc] False show ?thesis by simp
qed

lemma ab_mins_step:
  assumes t: "fail_soft a b vt rt" and ab: "a \<le> b"
    and inv: "b < m \<longrightarrow> m \<le> V" "m \<le> b \<longrightarrow> V = m"
    and rest: "\<not> min b (min m rt) < a \<Longrightarrow> a \<le> min b (min m rt) \<Longrightarrow>
      (min b (min m rt) < min m rt \<longrightarrow> min m rt \<le> min V vt) \<Longrightarrow>
      (min m rt \<le> min b (min m rt) \<longrightarrow> min V vt = min m rt) \<Longrightarrow>
      fail_soft a (min b (min m rt)) (foldl min (min V vt) vs) (ab_mins ts a (min b (min m rt)) (min m rt))"
  shows "fail_soft a b (foldl min (min V vt) vs)
           (if min b (min m rt) < a then min m rt else ab_mins ts a (min b (min m rt)) (min m rt))"
proof (cases "min b (min m rt) < a")
  case True
  with t inv ab have "min m rt < a \<and> min V vt \<le> min m rt" by (intro min_step_prune) auto
  moreover have "foldl min (min V vt) vs \<le> min V vt" by (rule foldl_min_le_acc)
  ultimately show ?thesis using True ab by (auto simp: fail_soft_def)
next
  case False
  with t inv ab have k1: "min b (min m rt) < min m rt \<longrightarrow> min m rt \<le> min V vt"
    and k2: "min m rt \<le> min b (min m rt) \<longrightarrow> min V vt = min m rt"
    using min_step_keep by blast+
  from False have "a \<le> min b (min m rt)" by (simp only: not_less)
  from fail_soft_lower_b [OF rest [OF False this k1 k2] ab_mins_le_acc] False show ?thesis by simp
qed

text \<open>
  Knuth and Moore's theorem for the source's search, by induction over the mutual
  recursion. For the loops the statement carries the true value \<open>V\<close> of the
  children searched so far: it is bounded by the running value while that lies below
  the window and equals it once it has entered the window.
\<close>

lemma ab_fail_soft:
  shows "\<And>V. a \<le> b \<Longrightarrow> fail_soft a b (mm_val t) (ab_val t a b)"
    and "\<And>V. a \<le> b \<Longrightarrow> (m < a \<longrightarrow> V \<le> m) \<Longrightarrow> (a \<le> m \<longrightarrow> V = m) \<Longrightarrow>
           fail_soft a b (foldl max V (map mm_val ts)) (ab_maxs ts a b m)"
    and "\<And>V. a \<le> b \<Longrightarrow> (b < m \<longrightarrow> m \<le> V) \<Longrightarrow> (m \<le> b \<longrightarrow> V = m) \<Longrightarrow>
           fail_soft a b (foldl min V (map mm_val ts)) (ab_mins ts a b m)"
proof (induction t a b and ts a b m and ts a b m rule: ab_val_ab_maxs_ab_mins.induct)
  case (5 t ts a b m)
  show ?case
    using ab_maxs_step [OF "5.IH"(1) [OF "5.prems"(1)] "5.prems"] "5.IH"(2) [OF refl refl]
    by (simp add: Let_def)
next
  case (7 t ts a b m)
  show ?case
    using ab_mins_step [OF "7.IH"(1) [OF "7.prems"(1)] "7.prems"] "7.IH"(2) [OF refl refl]
    by (simp add: Let_def)
qed (auto simp: fail_soft_def)

text \<open>
  One step of the root loops: a child searched with window \<open>[e, b]\<close>, whose true
  value is at most \<open>b\<close>, changes the running best value exactly as its true value would.
\<close>

lemma fail_soft_root_step:
  assumes "fail_soft e b v r" "e \<le> b" "v \<le> b"
  shows "(e < r \<longleftrightarrow> e < v) \<and> (e < v \<longrightarrow> r = v) \<and> \<not> b < r \<and> max e r = max e v"
  using assms unfolding fail_soft_def by (auto simp: max_def)

text \<open>
  On proper trees the sentinels of the source's loops are never the result: the value
  with sentinels is the textbook minimax value.
\<close>

lemma mm_val_spec:
  "mm_proper t \<Longrightarrow> mm_val t = mm_spec t \<and> - sentinel \<le> mm_spec t \<and> mm_spec t \<le> sentinel"
proof (induction t rule: mm_spec.induct)
  case (2 ts)
  then have ne: "ts \<noteq> []" and eq: "map mm_val ts = map mm_spec ts"
    and b: "\<And>v. v \<in> set (map mm_spec ts) \<Longrightarrow> - sentinel \<le> v \<and> v \<le> sentinel"
    by (auto simp: list_all_iff)
  obtain t where "t \<in> set ts" using ne by (cases ts) auto
  then have "Max (insert (- sentinel) (set (map mm_spec ts))) = Max (set (map mm_spec ts))"
    using b by (intro Max_insert_below [of _ "mm_spec t"]) auto
  then show ?case using Max_list_bounds [of "map mm_spec ts"] ne eq b by (simp add: foldl_max_Max)
next
  case (3 ts)
  then have ne: "ts \<noteq> []" and eq: "map mm_val ts = map mm_spec ts"
    and b: "\<And>v. v \<in> set (map mm_spec ts) \<Longrightarrow> - sentinel \<le> v \<and> v \<le> sentinel"
    by (auto simp: list_all_iff)
  obtain t where "t \<in> set ts" using ne by (cases ts) auto
  then have "Min (insert sentinel (set (map mm_spec ts))) = Min (set (map mm_spec ts))"
    using b by (intro Min_insert_above [of _ "mm_spec t"]) auto
  then show ?case using Min_list_bounds [of "map mm_spec ts"] ne eq b by (simp add: foldl_min_Min)
qed simp

section \<open>Expectimax trees\<close>

text \<open>
  The trees \<open>ExpectimaxAgent\<close> searches: Pacman's nodes take the maximum, the ghosts'
  nodes the mean of their children (every ghost move equally likely). Nodes are never
  empty there: an agent without moves is evaluated as a leaf.
\<close>

datatype etree = ELeaf real | EMax "etree list" | EAvg "etree list"

fun ex_val :: "etree \<Rightarrow> real" where
  "ex_val (ELeaf x) = x"
| "ex_val (EMax ts) = Max (set (map ex_val ts))"
| "ex_val (EAvg ts) = sum_list (map ex_val ts) / real (length ts)"

end
