(* ===== verification/ExampleGames.thy ===== *)
theory ExampleGames
  imports Prelude
begin

text \<open>
  Small concrete games on which the theorems are instantiated. A state is the list of
  moves made so far, an action a number.
  \<^item> \<open>tiny_game\<close>: two agents (Pacman and one ghost), two moves each, no terminal
    states; with \<open>tiny_eval\<close> at the cut-off, Pacman's move 0 leads to the ghost's
    choice between 3 and 12, move 1 to 5 and 5.
  \<^item> \<open>solo_game\<close>: a single agent that always has a move and never wins or loses.
\<close>

definition tiny_game :: "(nat list, nat) game" where
  "tiny_game = \<lparr>getLegalActions = (\<lambda>s i. if length s < 4 then [0, 1] else []),
     generateSuccessor = (\<lambda>s i a. s @ [a]), getNumAgents = (\<lambda>s. 2),
     isWin = (\<lambda>s. False), isLose = (\<lambda>s. False), getScore = (\<lambda>s. 0),
     getPacmanPosition = (\<lambda>s. (0, 0)), getFood = (\<lambda>s. []), getGhostStates = (\<lambda>s. []),
     getCapsules = (\<lambda>s. [])\<rparr>"

definition tiny_eval :: "nat list \<Rightarrow> real" where
  "tiny_eval s = (if s = [0, 0] then 3 else if s = [0, 1] then 12 else if s = [1, 0] then 5
                  else if s = [1, 1] then 5 else 0)"

definition tiny_agent :: "int \<Rightarrow> nat list search_agent" where
  "tiny_agent D = \<lparr>index = 0, evaluationFunction = tiny_eval, depth = D\<rparr>"

definition solo_game :: "(nat list, nat) game" where
  "solo_game = tiny_game\<lparr>getLegalActions := (\<lambda>s i. [0]), getNumAgents := (\<lambda>s. 1)\<rparr>"

text \<open>
  \<open>sentinel_agent\<close> searches \<open>tiny_game\<close> to depth 0 with an evaluation that
  rates both of Pacman's moves above the sentinel \<open>9999999\<close>.
\<close>

definition sentinel_agent :: "nat list search_agent" where
  "sentinel_agent = \<lparr>index = 0,
     evaluationFunction = (\<lambda>s. if s = [0] then 10000000 else if s = [1] then 20000000 else 0),
     depth = 0\<rparr>"

text \<open>
  \<open>line_game\<close>: Pacman on a line with food pellets, one ghost at \<open>(4, 0)\<close> whose scared
  timer is the parameter. A move shifts Pacman by the action along the x-axis; reaching
  a pellet eats it (score +9, i.e. +10 for the pellet and -1 for the move), any other
  move costs 1; the game is won when no food is left. The state is Pacman's position,
  the food and the score.
\<close>

definition line_game :: "int \<Rightarrow> (pos \<times> pos list \<times> real, int) game" where
  "line_game timer = \<lparr>getLegalActions = (\<lambda>s i. [-1, 1]),
     generateSuccessor = (\<lambda>(p, fl, sc) i a. let p' = (fst p + of_int a, snd p) in
        if p' \<in> set fl then (p', removeAll p' fl, sc + 9) else (p', fl, sc - 1)),
     getNumAgents = (\<lambda>s. 2), isWin = (\<lambda>(p, fl, sc). fl = []), isLose = (\<lambda>s. False),
     getScore = (\<lambda>(p, fl, sc). sc), getPacmanPosition = (\<lambda>(p, fl, sc). p),
     getFood = (\<lambda>(p, fl, sc). fl),
     getGhostStates = (\<lambda>s. [\<lparr>getPosition = (4, 0), scaredTimer = timer\<rparr>]),
     getCapsules = (\<lambda>s. [])\<rparr>"

text \<open>
  \<open>ghost_game\<close>: the state is the position of the only ghost; Pacman stands at the
  origin, nothing else is on the board.
\<close>

definition ghost_game :: "int \<Rightarrow> (pos, int) game" where
  "ghost_game timer = \<lparr>getLegalActions = (\<lambda>s i. []), generateSuccessor = (\<lambda>s i a. s),
     getNumAgents = (\<lambda>s. 2), isWin = (\<lambda>s. False), isLose = (\<lambda>s. False), getScore = (\<lambda>s. 0),
     getPacmanPosition = (\<lambda>s. (0, 0)), getFood = (\<lambda>s. []),
     getGhostStates = (\<lambda>s. [\<lparr>getPosition = s, scaredTimer = timer\<rparr>]), getCapsules = (\<lambda>s. [])\<rparr>"

text \<open>\<open>food_game\<close>: the state is the list of food pellets; Pacman stands at the origin.\<close>

definition food_game :: "(pos list, int) game" where
  "food_game = \<lparr>getLegalActions = (\<lambda>s i. []), generateSuccessor = (\<lambda>s i a. s),
     getNumAgents = (\<lambda>s. 1), isWin = (\<lambda>s. False), isLose = (\<lambda>s. False), getScore = (\<lambda>s. 0),
     getPacmanPosition = (\<lambda>s. (0, 0)), getFood = (\<lambda>s. s), getGhostStates = (\<lambda>s. []),
     getCapsules = (\<lambda>s. [])\<rparr>"

text \<open>\<open>endless_game\<close>: \<open>tiny_game\<close> where both agents always have both moves.\<close>

definition endless_game :: "(nat list, nat) game" where
  "endless_game = tiny_game\<lparr>getLegalActions := (\<lambda>s i. [0, 1])\<rparr>"

text \<open>\<open>won_game\<close>: \<open>tiny_game\<close> where the state \<open>[0, 1]\<close> is won, although moves remain.\<close>

definition won_game :: "(nat list, nat) game" where
  "won_game = tiny_game\<lparr>isWin := (\<lambda>s. s = [0, 1])\<rparr>"

text \<open>\<open>low_agent\<close>: depth 1, every state evaluated below the sentinel \<open>-9999999\<close>.\<close>

definition low_agent :: "nat list search_agent" where
  "low_agent = \<lparr>index = 0, evaluationFunction = (\<lambda>s. - 100000000), depth = 1\<rparr>"

text \<open>
  \<open>uniform_agent\<close>: depth 1 on \<open>tiny_game\<close>; Pacman's move 0 leads to the ghost's
  choice between 3 and 12, move 1 to 8 and 8.
\<close>

definition uniform_agent :: "nat list search_agent" where
  "uniform_agent = \<lparr>index = 0,
     evaluationFunction = (\<lambda>s. if s = [0, 0] then 3 else if s = [0, 1] then 12 else 8), depth = 1\<rparr>"

lemma tiny_game_fixed: "agents_fixed tiny_game 2"
  by (simp add: agents_fixed_def tiny_game_def)

lemmas tiny_simps [search_simps] = tiny_game_def tiny_eval_def tiny_agent_def solo_game_def sentinel_agent_def
  line_game_def ghost_game_def food_game_def endless_game_def won_game_def low_agent_def
  uniform_agent_def

end
