(* ===== verification/CallGraph.thy ===== *)
theory CallGraph
  imports Prelude
begin

text \<open>
  The call graph of the nested search of \<open>MinimaxAgent.getAction\<close>, which
  \<open>AlphaBetaAgent.getAction\<close> shares: a call \<open>minimax(gameState, depth, agentIndex)\<close>
  at a state that is not a cut-off calls itself once for every legal action of the agent
  to move, on the successor state, with Pacman's child at the first ghost, a ghost's
  child at the next ghost, and the last ghost's child at Pacman one ply deeper. The
  relation \<open>search_step\<close> has one rule per recursive call of the source. A call in
  range (\<open>search_inv\<close>) calls only calls in range, each with one move less left
  before the cut-off (\<open>search_measure\<close>, \<open>call_measure\<close>); \<open>search_child_IH\<close>
  turns this into the step of the inductions on the fuel of the refinement proofs.
\<close>

text \<open>
  The number of moves left before the cut-off at ply \<open>D\<close>, at ply \<open>d\<close> with agent
  \<open>i\<close> to move, in a game of \<open>n\<close> agents.
\<close>

definition search_measure :: "nat \<Rightarrow> int \<Rightarrow> int \<Rightarrow> nat \<Rightarrow> nat" where
  "search_measure n D d i = nat (D - d) * n + (n - i)"

lemma search_measure_next_ply:
  "d < D \<Longrightarrow> search_measure n D (d + 1) 0 + 1 = search_measure n D d (n - 1)" if "1 \<le> n"
proof -
  assume "d < D"
  then have "nat (D - d) = Suc (nat (D - (d + 1)))" by simp
  with that show ?thesis by (simp add: search_measure_def)
qed

type_synonym 's search_call = "'s \<times> int \<times> nat"

definition search_cutoff :: "('s, 'a) game \<Rightarrow> 's search_agent \<Rightarrow> 's search_call \<Rightarrow> bool" where
  "search_cutoff g self c = (case c of (s, d, i) \<Rightarrow> isWin g s \<or> isLose g s \<or> d = depth self)"

inductive search_step :: "('s, 'a) game \<Rightarrow> 's search_agent \<Rightarrow> 's search_call \<Rightarrow> 's search_call \<Rightarrow> bool"
  for g self where
  pacman: "\<not> search_cutoff g self (s, d, 0) \<Longrightarrow> a \<in> set (getLegalActions g s 0) \<Longrightarrow>
           search_step g self (s, d, 0) (generateSuccessor g s 0 a, d, 1)"
| last_ghost: "\<not> search_cutoff g self (s, d, i) \<Longrightarrow> i \<noteq> 0 \<Longrightarrow> i = getNumAgents g s - 1 \<Longrightarrow>
           a \<in> set (getLegalActions g s i) \<Longrightarrow>
           search_step g self (s, d, i) (generateSuccessor g s i a, d + 1, 0)"
| next_ghost: "\<not> search_cutoff g self (s, d, i) \<Longrightarrow> i \<noteq> 0 \<Longrightarrow> i \<noteq> getNumAgents g s - 1 \<Longrightarrow>
           a \<in> set (getLegalActions g s i) \<Longrightarrow>
           search_step g self (s, d, i) (generateSuccessor g s i a, d, i + 1)"

inductive_cases search_stepE: "search_step g self c c'"

text \<open>The calls one call makes, in the order of the loops of the source.\<close>

definition search_children :: "('s, 'a) game \<Rightarrow> 's search_agent \<Rightarrow> 's search_call \<Rightarrow> 's search_call list" where
  "search_children g self c = (case c of (s, d, i) \<Rightarrow>
     if search_cutoff g self c then []
     else if i = 0 then map (\<lambda>a. (generateSuccessor g s i a, d, 1)) (getLegalActions g s i)
     else map (\<lambda>a. if i = getNumAgents g s - 1 then (generateSuccessor g s i a, d + 1, 0)
                   else (generateSuccessor g s i a, d, i + 1)) (getLegalActions g s i))"

text \<open>The calls the root loop makes, one per legal action of Pacman.\<close>

definition root_call :: "('s, 'a) game \<Rightarrow> 's \<Rightarrow> 's search_call \<Rightarrow> bool" where
  "root_call g s c \<longleftrightarrow> (\<exists>a\<in>set (getLegalActions g s 0). c = (generateSuccessor g s 0 a, 0, 1))"

definition search_inv :: "nat \<Rightarrow> int \<Rightarrow> 's search_call \<Rightarrow> bool" where
  "search_inv n D c = (case c of (s, d, i) \<Rightarrow> 0 \<le> d \<and> d \<le> D \<and> i < n)"

definition call_measure :: "nat \<Rightarrow> int \<Rightarrow> 's search_call \<Rightarrow> nat" where
  "call_measure n D c = (case c of (s, d, i) \<Rightarrow> search_measure n D d i)"

section \<open>Lemmas\<close>

text \<open>The relation is the executable list of children.\<close>

lemma search_step_iff: "search_step g self c c' \<longleftrightarrow> c' \<in> set (search_children g self c)"
proof
  assume "search_step g self c c'"
  then show "c' \<in> set (search_children g self c)"
    by (cases rule: search_step.cases) (auto simp: search_children_def)
next
  assume "c' \<in> set (search_children g self c)"
  then show "search_step g self c c'"
    by (cases c) (auto simp: search_children_def intro: search_step.intros [simplified] split: if_splits)
qed

lemma search_step_inv:
  assumes "search_step g self c c'" "agents_fixed g n" "2 \<le> n" "search_inv n (depth self) c"
  shows "search_inv n (depth self) c'"
  using assms by (cases rule: search_step.cases)
    (auto simp: search_inv_def search_cutoff_def agents_fixed_def)

lemma search_step_measure:
  assumes "search_step g self c c'" "agents_fixed g n" "2 \<le> n" "search_inv n (depth self) c"
  shows "call_measure n (depth self) c' + 1 = call_measure n (depth self) c"
  using assms
proof (cases rule: search_step.cases)
  case (last_ghost s d i a)
  then have "d < depth self" "n = getNumAgents g s" "1 \<le> n"
    using assms(2-4) by (auto simp: search_inv_def search_cutoff_def agents_fixed_def)
  then show ?thesis using last_ghost search_measure_next_ply [of n d "depth self"]
    by (simp add: call_measure_def)
qed (auto simp: call_measure_def search_inv_def search_measure_def)

text \<open>
  The calls of a call within range that is not a cut-off are within range and have one
  move less left, so an induction on the fuel applies to them.
\<close>

lemma search_child_IH:
  assumes fixed: "agents_fixed g n" and two: "2 \<le> n"
    and i: "i < n" and d: "0 \<le> d" "d \<le> depth self" and m: "search_measure n (depth self) d i \<le> Suc k"
    and nc: "\<not> search_cutoff g self (s, d, i)"
    and IH: "\<And>s' d' i'. i' < n \<Longrightarrow> 0 \<le> d' \<Longrightarrow> d' \<le> depth self \<Longrightarrow>
               search_measure n (depth self) d' i' \<le> k \<Longrightarrow> P s' d' i'"
    and a: "a \<in> set (getLegalActions g s i)"
  shows "if i = 0 then P (generateSuccessor g s i a) d 1
         else if i = getNumAgents g s - 1 then P (generateSuccessor g s i a) (d + 1) 0
         else P (generateSuccessor g s i a) d (i + 1)"
proof -
  have step: "P s' d' i'" if "search_step g self (s, d, i) (s', d', i')" for s' d' i'
  proof -
    have inv: "search_inv n (depth self) (s, d, i)" using i d by (simp add: search_inv_def)
    from search_step_inv [OF that fixed two inv] search_step_measure [OF that fixed two inv] m
    show ?thesis by (intro IH) (auto simp: search_inv_def call_measure_def)
  qed
  show ?thesis
    using nc a by (auto intro!: step intro: search_step.intros [simplified])
qed

end
