(* ===== verification/Minimax.thy ===== *)
theory Minimax
  imports GameTree ExampleGames CallGraph
begin

text \<open>
  \<open>MinimaxAgent.getAction\<close> of \<open>src/multiAgents.py\<close>: the nested recursive function
  \<open>minimax(gameState, depth, agentIndex)\<close> and the root loop over Pacman's legal
  actions. The recursion over an opaque game need not end, so \<open>minimax\<close> is a
  \<^theory_text>\<open>partial_function (option)\<close>: \<open>None\<close> is a search that never returns. The
  closure over \<open>self\<close> is the explicit \<open>search_agent\<close> argument.

  \<open>game_tree\<close> unfolds the game, as \<open>minimax\<close> explores it, into a finite \<open>mtree\<close>;
  \<open>minimax_game_tree\<close> shows that on a game with a fixed number \<open>n \<ge> 2\<close> of agents
  the search returns, with the value of that tree.
\<close>

partial_function (option) minimax ::
  "('s, 'a) game \<Rightarrow> 's search_agent \<Rightarrow> 's \<Rightarrow> int \<Rightarrow> nat \<Rightarrow> real option" where
  "minimax g self gameState d agentIndex =
     (if isWin g gameState \<or> isLose g gameState \<or> d = depth self
      then Some (evaluationFunction self gameState)
      else if agentIndex = 0
      then for_opt (\<lambda>action. minimax g self (generateSuccessor g gameState agentIndex action) d 1)
             max (getLegalActions g gameState agentIndex) (- sentinel)
      else for_opt (\<lambda>action.
               if agentIndex = getNumAgents g gameState - 1
               then minimax g self (generateSuccessor g gameState agentIndex action) (d + 1) 0
               else minimax g self (generateSuccessor g gameState agentIndex action) d (agentIndex + 1))
             min (getLegalActions g gameState agentIndex) sentinel)"

text \<open>
  The root loop: \<open>eval\<close> starts at \<open>-9999999\<close> and \<open>resultAction\<close> at \<open>''\<close>
  (here \<open>None\<close>); an action replaces the current one only when its value is strictly
  greater.
\<close>

primrec minimax_root ::
  "('s, 'a) game \<Rightarrow> 's search_agent \<Rightarrow> 's \<Rightarrow> 'a list \<Rightarrow> real \<Rightarrow> 'a option \<Rightarrow> 'a option option" where
  "minimax_root g self gameState [] eval resultAction = Some resultAction"
| "minimax_root g self gameState (action # actions) eval resultAction =
     Option.bind (minimax g self (generateSuccessor g gameState 0 action) 0 1) (\<lambda>nextEval.
       if eval < nextEval then minimax_root g self gameState actions nextEval (Some action)
       else minimax_root g self gameState actions eval resultAction)"

definition MinimaxAgent_getAction :: "('s, 'a) game \<Rightarrow> 's search_agent \<Rightarrow> 's \<Rightarrow> 'a option option" where
  "MinimaxAgent_getAction g self gameState =
     minimax_root g self gameState (getLegalActions g gameState 0) (- sentinel) None"

section \<open>The evaluations the search makes\<close>

text \<open>
  \<open>minimax\<close> with the log of the states it passes to \<open>self.evaluationFunction\<close>
  (line 157), in the order of the calls: a cut-off logs its state, an inner node the
  logs of its children in the order of the loop.
\<close>

partial_function (option) minimax_evals ::
  "('s, 'a) game \<Rightarrow> 's search_agent \<Rightarrow> 's \<Rightarrow> int \<Rightarrow> nat \<Rightarrow> (real \<times> 's list) option" where
  "minimax_evals g self gameState d agentIndex =
     (if isWin g gameState \<or> isLose g gameState \<or> d = depth self
      then Some (evaluationFunction self gameState, [gameState])
      else if agentIndex = 0
      then for_opt (\<lambda>action. minimax_evals g self (generateSuccessor g gameState agentIndex action) d 1)
             (\<lambda>(m, l) (v, l'). (max m v, l @ l')) (getLegalActions g gameState agentIndex) (- sentinel, [])
      else for_opt (\<lambda>action.
               if agentIndex = getNumAgents g gameState - 1
               then minimax_evals g self (generateSuccessor g gameState agentIndex action) (d + 1) 0
               else minimax_evals g self (generateSuccessor g gameState agentIndex action) d (agentIndex + 1))
             (\<lambda>(m, l) (v, l'). (min m v, l @ l')) (getLegalActions g gameState agentIndex) (sentinel, []))"

section \<open>The game tree searched\<close>

text \<open>
  The tree of the positions \<open>minimax\<close> visits, cut off where it evaluates. \<open>k\<close> is fuel:
  the unfolding stops with a dummy leaf when it runs out; \<open>search_measure\<close> bounds the
  fuel that is enough.
\<close>

fun game_tree :: "nat \<Rightarrow> ('s, 'a) game \<Rightarrow> 's search_agent \<Rightarrow> 's \<Rightarrow> int \<Rightarrow> nat \<Rightarrow> mtree" where
  "game_tree 0 g self s d i = MLeaf 0"
| "game_tree (Suc k) g self s d i =
     (if isWin g s \<or> isLose g s \<or> d = depth self then MLeaf (evaluationFunction self s)
      else if i = 0
      then MMax (map (\<lambda>a. game_tree k g self (generateSuccessor g s i a) d 1) (getLegalActions g s i))
      else MMin (map (\<lambda>a. if i = getNumAgents g s - 1
                          then game_tree k g self (generateSuccessor g s i a) (d + 1) 0
                          else game_tree k g self (generateSuccessor g s i a) d (i + 1))
                     (getLegalActions g s i)))"

section \<open>Refinement to the tree value\<close>

text \<open>
  With a fixed number \<open>n \<ge> 2\<close> of agents, an agent index below \<open>n\<close> and a ply
  between 0 and the configured depth, enough fuel unfolds the whole search and
  \<open>minimax\<close> returns the value of the unfolded tree. Induction on the fuel; each call
  lowers \<open>search_measure\<close> by one.
\<close>

lemma minimax_game_tree:
  assumes fixed: "agents_fixed g n" and two: "2 \<le> n"
  shows "i < n \<Longrightarrow> 0 \<le> d \<Longrightarrow> d \<le> depth self \<Longrightarrow> search_measure n (depth self) d i \<le> k \<Longrightarrow>
         minimax g self s d i = Some (mm_val (game_tree k g self s d i))"
proof (induction k arbitrary: s d i)
  case 0
  then show ?case by (simp add: search_measure_def)
next
  case (Suc k)
  show ?case
  proof (cases "search_cutoff g self (s, d, i)")
    case True
    then show ?thesis by (simp add: search_cutoff_def minimax.simps [of g self s d i])
  next
    case False
    have "if i = 0 then minimax g self (generateSuccessor g s i a) d 1 = Some (mm_val (game_tree k g self (generateSuccessor g s i a) d 1))
          else if i = getNumAgents g s - 1
          then minimax g self (generateSuccessor g s i a) (d + 1) 0 = Some (mm_val (game_tree k g self (generateSuccessor g s i a) (d + 1) 0))
          else minimax g self (generateSuccessor g s i a) d (i + 1) = Some (mm_val (game_tree k g self (generateSuccessor g s i a) d (i + 1)))"
      if "a \<in> set (getLegalActions g s i)" for a
      by (rule search_child_IH [OF fixed two Suc.prems(1-3) _ False Suc.IH that]) (use Suc.prems in simp)
    with False show ?thesis unfolding minimax.simps [of g self s d i]
      by (cases "i = 0") (auto simp: search_cutoff_def comp_def intro!: for_opt_Some split: if_split_asm)
  qed
qed

text \<open>The cut-off values bound the tree value from above when they are below the sentinel.\<close>

lemma game_tree_le_sentinel:
  "(\<And>s. evaluationFunction self s \<le> sentinel) \<Longrightarrow> mm_val (game_tree k g self s d i) \<le> sentinel"
proof (induction k arbitrary: s d i)
  case 0
  then show ?case by simp
next
  case (Suc k)
  then show ?case
    by (auto intro!: foldl_max_bounded order.trans [OF foldl_min_le_acc])
qed

section \<open>The root loop\<close>

text \<open>The root loop only ever picks one of the actions it iterates over.\<close>

lemma minimax_root_legal:
  "minimax_root g self s as e r = Some (Some a) \<Longrightarrow> a \<in> set as \<or> r = Some a"
  by (induction as arbitrary: e r) (fastforce split: Option.bind_splits if_splits)+

lemma minimax_root_returns:
  "(\<And>a. a \<in> set as \<Longrightarrow> \<exists>v. minimax g self (generateSuccessor g s 0 a) 0 1 = Some v) \<Longrightarrow>
   \<exists>r. minimax_root g self s as e r0 = Some r"
  by (induction as arbitrary: e r0) fastforce+

lemma minimax_root_Some:
  "minimax_root g self s as e r = Some res \<Longrightarrow>
   (res = r \<and> (\<forall>b\<in>set as. \<exists>w. minimax g self (generateSuccessor g s 0 b) 0 1 = Some w \<and> w \<le> e)) \<or>
   (\<exists>pre a post v. as = pre @ a # post \<and> res = Some a \<and>
      minimax g self (generateSuccessor g s 0 a) 0 1 = Some v \<and> e < v \<and>
      (\<forall>b\<in>set pre. \<exists>w. minimax g self (generateSuccessor g s 0 b) 0 1 = Some w \<and> w < v) \<and>
      (\<forall>b\<in>set post. \<exists>w. minimax g self (generateSuccessor g s 0 b) 0 1 = Some w \<and> w \<le> v))"
  by (rule argmax_loop_Some [where R = "minimax_root g self s" and h = "\<lambda>x. x"]) simp_all

lemma minimax_root_depth_zero:
  "depth self = 0 \<Longrightarrow> minimax_root g self s as e r =
     Some (snd (foldl (\<lambda>(e, r) a. let v = evaluationFunction self (generateSuccessor g s 0 a) in
                        if e < v then (v, Some a) else (e, r)) (e, r) as))"
  by (induction as arbitrary: e r) (simp_all add: minimax.simps [of g self _ 0])

text \<open>
  With evaluations within the sentinels and a move for every agent in every state that
  is not terminal, the unfolded tree is proper, whatever the fuel.
\<close>

lemma game_tree_proper:
  assumes "\<And>s. \<bar>evaluationFunction self s\<bar> \<le> sentinel"
    and "\<And>s j. \<not> isWin g s \<Longrightarrow> \<not> isLose g s \<Longrightarrow> getLegalActions g s j \<noteq> []"
  shows "mm_proper (game_tree k g self s d i)"
proof (induction k arbitrary: s d i)
  case (Suc k)
  have b: "- sentinel \<le> evaluationFunction self s' \<and> evaluationFunction self s' \<le> sentinel" for s'
    using abs_le_bounds [OF assms(1) [of s']] .
  show ?case using Suc assms(2) b by (auto simp: list_all_iff)
qed simp

section \<open>Searches that do not return\<close>

text \<open>
  With a single agent the ghost branch is entered with \<open>agentIndex = 1\<close>, which is
  never \<open>getNumAgents() - 1 = 0\<close>: the ply counter never advances, and unless a
  state on the way is terminal or stuck the search never reaches the cut-off. Partial
  correctness induction (\<open>minimax.raw_induct\<close>) with the property "returns nothing".
\<close>

lemma minimax_single_agent_None:
  assumes one: "agents_fixed g 1" and moves: "\<And>s i. getLegalActions g s i \<noteq> []"
    and nw: "\<And>s. \<not> isWin g s" and nl: "\<And>s. \<not> isLose g s"
    and pos: "0 < i" and dd: "d \<noteq> depth self"
  shows "minimax g self s d i = None"
proof (rule ccontr)
  assume "minimax g self s d i \<noteq> None"
  then obtain v where ret: "minimax g self s d i = Some v" by blast
  have "g = g \<longrightarrow> self = self \<longrightarrow> 0 < i \<longrightarrow> d \<noteq> depth self \<longrightarrow> False"
  apply (rule minimax.raw_induct
      [where P = "\<lambda>g' self' s' d' i' v'. g' = g \<longrightarrow> self' = self \<longrightarrow> 0 < i' \<longrightarrow> d' \<noteq> depth self \<longrightarrow> False",
       OF _ ret])
  subgoal premises prems for f g' self' s' d' i' v'
  proof (intro impI)
    assume g: "g' = g" and self: "self' = self" and i: "0 < i'" and d: "d' \<noteq> depth self"
    obtain a as where legal: "getLegalActions g s' i' = a # as"
      using moves by (cases "getLegalActions g s' i'") auto
    have n: "getNumAgents g s' = 1" using one by (simp add: agents_fixed_def)
    from prems(2) g self i d nw nl legal n
    obtain w where "f g self (generateSuccessor g s' i' a) d' (i' + 1) = Some w"
      by (auto split: Option.bind_splits)
    from prems(1) [OF this] d show False by simp
  qed
  done
  with pos dd show False by simp
qed

text \<open>
  Below a ply past the configured depth the cut-off test \<open>depth == self.depth\<close> never
  holds again: in a game that never ends and where every agent always has a move, the
  search does not return.
\<close>

lemma minimax_past_depth_None:
  assumes moves: "\<And>s i. getLegalActions g s i \<noteq> []"
    and nw: "\<And>s. \<not> isWin g s" and nl: "\<And>s. \<not> isLose g s"
    and past: "depth self < d"
  shows "minimax g self s d i = None"
proof (rule ccontr)
  assume "minimax g self s d i \<noteq> None"
  then obtain v where ret: "minimax g self s d i = Some v" by blast
  have "g = g \<longrightarrow> self = self \<longrightarrow> depth self < d \<longrightarrow> False"
  apply (rule minimax.raw_induct
      [where P = "\<lambda>g' self' s' d' i' v'. g' = g \<longrightarrow> self' = self \<longrightarrow> depth self < d' \<longrightarrow> False", OF _ ret])
  subgoal premises prems for f g' self' s' d' i' v'
  proof (intro impI)
    assume g: "g' = g" and self: "self' = self" and d: "depth self < d'"
    obtain a as where legal: "getLegalActions g s' i' = a # as"
      using moves by (cases "getLegalActions g s' i'") auto
    from prems(2) g self d nw nl legal
    obtain d'' i'' w where "f g self (generateSuccessor g s' i' a) d'' i'' = Some w" "d' \<le> d''"
      by (fastforce split: Option.bind_splits if_splits)
    from prems(1) [OF this(1)] this(2) d show False by simp
  qed
  done
  with past show False by simp
qed

section \<open>Properties\<close>

text \<open>
  C3: \<open>MinimaxAgent.getAction\<close> returns on every game with a fixed number of at least two
  agents and a non-negative configured depth.
\<close>

theorem MinimaxAgent_getAction_returns:
  assumes "agents_fixed g n" "2 \<le> n" "0 \<le> depth self"
  shows "\<exists>r. MinimaxAgent_getAction g self s = Some r"
proof -
  have "\<exists>v. minimax g self (generateSuccessor g s 0 a) 0 1 = Some v" for a
    using minimax_game_tree [OF assms(1,2), of 1 0 self "search_measure n (depth self) 0 1"] assms(2,3)
    by auto
  then show ?thesis unfolding MinimaxAgent_getAction_def by (intro minimax_root_returns) blast
qed

theorem MinimaxAgent_getAction_returns_witness:
  "agents_fixed tiny_game 2 \<and> (2::nat) \<le> 2 \<and> 0 \<le> depth (tiny_agent 1) \<and>
   (\<exists>r. MinimaxAgent_getAction tiny_game (tiny_agent 1) [] = Some r)"
  using MinimaxAgent_getAction_returns [OF tiny_game_fixed, of "tiny_agent 1" "[]"]
  by (simp add: tiny_game_fixed tiny_agent_def)

text \<open>
  C4: When \<open>MinimaxAgent.getAction\<close> returns an action, it is the first legal action
  of greatest minimax value, and that value is above the sentinel \<open>-9999999\<close>: every
  action before it scores strictly less, every action after it at most as much.
\<close>

theorem MinimaxAgent_getAction_first_best:
  assumes "MinimaxAgent_getAction g self s = Some (Some a)"
  shows "\<exists>pre post v. getLegalActions g s 0 = pre @ a # post \<and>
           minimax g self (generateSuccessor g s 0 a) 0 1 = Some v \<and> - sentinel < v \<and>
           (\<forall>b\<in>set pre. \<exists>w. minimax g self (generateSuccessor g s 0 b) 0 1 = Some w \<and> w < v) \<and>
           (\<forall>b\<in>set post. \<exists>w. minimax g self (generateSuccessor g s 0 b) 0 1 = Some w \<and> w \<le> v)"
  using minimax_root_Some [OF assms [unfolded MinimaxAgent_getAction_def]] by blast

theorem MinimaxAgent_getAction_first_best_witness:
  "MinimaxAgent_getAction tiny_game (tiny_agent 1) [] = Some (Some 1) \<and>
   (\<exists>pre post v. getLegalActions tiny_game [] 0 = pre @ 1 # post \<and>
      minimax tiny_game (tiny_agent 1) (generateSuccessor tiny_game [] 0 1) 0 1 = Some v \<and> - sentinel < v \<and>
      (\<forall>b\<in>set pre. \<exists>w. minimax tiny_game (tiny_agent 1) (generateSuccessor tiny_game [] 0 b) 0 1 = Some w \<and> w < v) \<and>
      (\<forall>b\<in>set post. \<exists>w. minimax tiny_game (tiny_agent 1) (generateSuccessor tiny_game [] 0 b) 0 1 = Some w \<and> w \<le> v))"
proof -
  have ret: "MinimaxAgent_getAction tiny_game (tiny_agent 1) [] = Some (Some 1)"
    by (simp add: MinimaxAgent_getAction_def minimax.simps search_simps)
  show ?thesis using MinimaxAgent_getAction_first_best [OF ret] ret by blast
qed

text \<open>
  C6: With the configured depth 0 the search is one ply deep: every root child is
  evaluated directly, and \<open>getAction\<close> is the first action whose successor has the
  greatest evaluation above \<open>-9999999\<close>.
\<close>

theorem MinimaxAgent_depth_zero:
  "depth self = 0 \<Longrightarrow> MinimaxAgent_getAction g self s =
     Some (snd (foldl (\<lambda>(e, r) a. let v = evaluationFunction self (generateSuccessor g s 0 a) in
                        if e < v then (v, Some a) else (e, r)) (- sentinel, None) (getLegalActions g s 0)))"
  unfolding MinimaxAgent_getAction_def by (rule minimax_root_depth_zero)

theorem MinimaxAgent_depth_zero_witness:
  "depth (tiny_agent 0) = 0 \<and> MinimaxAgent_getAction tiny_game (tiny_agent 0) [] = Some (Some 0)"
  using MinimaxAgent_depth_zero [of "tiny_agent 0" tiny_game "[]"] by (simp add: search_simps)

text \<open>
  C7: An agent without legal moves at a node that is neither terminal nor at the cut-off
  does not get its state evaluated: the loop runs zero times and the sentinel leaks out,
  \<open>-9999999\<close> for Pacman and \<open>9999999\<close> for a ghost.
\<close>

theorem minimax_no_moves_sentinel:
  "\<not> isWin g s \<Longrightarrow> \<not> isLose g s \<Longrightarrow> d \<noteq> depth self \<Longrightarrow> getLegalActions g s i = [] \<Longrightarrow>
   minimax g self s d i = Some (if i = 0 then - sentinel else sentinel)"
  by (subst minimax.simps) (cases "i = 0"; simp)

theorem minimax_no_moves_sentinel_witness:
  "\<not> isWin (tiny_game\<lparr>getLegalActions := \<lambda>s i. []\<rparr>) [] \<and> \<not> isLose (tiny_game\<lparr>getLegalActions := \<lambda>s i. []\<rparr>) [] \<and>
   0 \<noteq> depth (tiny_agent 1) \<and> getLegalActions (tiny_game\<lparr>getLegalActions := \<lambda>s i. []\<rparr>) [] 1 = [] \<and>
   minimax (tiny_game\<lparr>getLegalActions := \<lambda>s i. []\<rparr>) (tiny_agent 1) [] 0 1 = Some sentinel"
  using minimax_no_moves_sentinel [of "tiny_game\<lparr>getLegalActions := \<lambda>s i. []\<rparr>" "[]" 0 "tiny_agent 1" 1]
  by (simp add: search_simps)

text \<open>
  C8: In a game with a single agent, in which every agent always has a move and no
  state is won or lost, \<open>MinimaxAgent.getAction\<close> never returns for a positive depth:
  the search needs at least one ghost.
\<close>

theorem MinimaxAgent_single_agent_diverges:
  assumes "agents_fixed g 1" "\<And>s i. getLegalActions g s i \<noteq> []"
    "\<And>s. \<not> isWin g s" "\<And>s. \<not> isLose g s" "depth self \<noteq> 0"
  shows "MinimaxAgent_getAction g self s = None"
proof -
  obtain a as where "getLegalActions g s 0 = a # as"
    using assms(2) by (cases "getLegalActions g s 0") auto
  moreover have "minimax g self (generateSuccessor g s 0 a) 0 1 = None"
    using assms by (intro minimax_single_agent_None) auto
  ultimately show ?thesis by (simp add: MinimaxAgent_getAction_def)
qed

theorem MinimaxAgent_single_agent_diverges_witness:
  "agents_fixed solo_game 1 \<and> (\<forall>s i. getLegalActions solo_game s i \<noteq> []) \<and>
   (\<forall>s. \<not> isWin solo_game s) \<and> (\<forall>s. \<not> isLose solo_game s) \<and> depth (tiny_agent 1) \<noteq> 0 \<and>
   MinimaxAgent_getAction solo_game (tiny_agent 1) [] = None"
proof -
  have h: "agents_fixed solo_game 1" "\<And>s i. getLegalActions solo_game s i \<noteq> []"
    "\<And>s. \<not> isWin solo_game s" "\<And>s. \<not> isLose solo_game s" "depth (tiny_agent 1) \<noteq> 0"
    by (simp_all add: agents_fixed_def search_simps)
  show ?thesis using h MinimaxAgent_single_agent_diverges [OF h] by blast
qed

text \<open>
  C24: Refinement of the textbook minimax value: when every evaluation lies within the
  sentinels \<open>\<plusminus>9999999\<close> and every agent has a move in every state that is not
  terminal, \<open>minimax\<close> returns the maximum over Pacman's moves and the minimum over the
  ghosts' moves of the unfolded game, and the sentinels never show in the result.
\<close>

theorem minimax_textbook_value:
  assumes "agents_fixed g n" "2 \<le> n" "i < n" "0 \<le> d" "d \<le> depth self"
    and "\<And>s. \<bar>evaluationFunction self s\<bar> \<le> sentinel"
    and "\<And>s j. \<not> isWin g s \<Longrightarrow> \<not> isLose g s \<Longrightarrow> getLegalActions g s j \<noteq> []"
  shows "minimax g self s d i = Some (mm_spec (game_tree (search_measure n (depth self) d i) g self s d i))"
  using minimax_game_tree [OF assms(1-5) order.refl] mm_val_spec [OF game_tree_proper [OF assms(6,7)]]
  by simp

theorem minimax_textbook_value_witness:
  "minimax endless_game (tiny_agent 1) [0] 0 1 =
     Some (mm_spec (game_tree (search_measure 2 (depth (tiny_agent 1)) 0 1) endless_game (tiny_agent 1) [0] 0 1)) \<and>
   mm_spec (game_tree (search_measure 2 (depth (tiny_agent 1)) 0 1) endless_game (tiny_agent 1) [0] 0 1) = 3"
proof -
  have h: "agents_fixed endless_game 2" "(2::nat) \<le> 2" "(1::nat) < 2" "(0::int) \<le> 0" "0 \<le> depth (tiny_agent 1)"
    "\<And>s. \<bar>evaluationFunction (tiny_agent 1) s\<bar> \<le> sentinel"
    "\<And>s j. \<not> isWin endless_game s \<Longrightarrow> \<not> isLose endless_game s \<Longrightarrow> getLegalActions endless_game s j \<noteq> []"
    by (simp_all add: agents_fixed_def search_simps)
  have v: "mm_spec (game_tree (search_measure 2 (depth (tiny_agent 1)) 0 1) endless_game (tiny_agent 1) [0] 0 1) = 3"
    by (simp add: search_measure_def numeral_eq_Suc search_simps)
  show ?thesis using minimax_textbook_value [OF h] v by simp
qed

end
