(* ===== verification/AlphaBeta.thy ===== *)
theory AlphaBeta
  imports Minimax
begin

text \<open>
  \<open>AlphaBetaAgent.getAction\<close> of \<open>src/multiAgents.py\<close>: the nested function
  \<open>minimax(gameState, depth, alpha, beta, agentIndex)\<close> with pruning, and the root loop
  with its own early return. The two loops of the nested function are the
  combinators \<open>ab_max_loop\<close> and \<open>ab_min_loop\<close>: after each child the running value
  and the bound are updated and the loop breaks when \<open>alpha > beta\<close>. The bound that
  changes is passed to the next child, which is why the child search is a function of it.
\<close>

primrec ab_max_loop :: "(real \<Rightarrow> 'a \<Rightarrow> real option) \<Rightarrow> 'a list \<Rightarrow> real \<Rightarrow> real \<Rightarrow> real \<Rightarrow> real option" where
  "ab_max_loop f [] alpha beta maxEval = Some maxEval"
| "ab_max_loop f (action # actions) alpha beta maxEval =
     Option.bind (f alpha action) (\<lambda>eval.
       let maxEval' = max maxEval eval; alpha' = max alpha maxEval' in
       if alpha' > beta then Some maxEval' else ab_max_loop f actions alpha' beta maxEval')"

primrec ab_min_loop :: "(real \<Rightarrow> 'a \<Rightarrow> real option) \<Rightarrow> 'a list \<Rightarrow> real \<Rightarrow> real \<Rightarrow> real \<Rightarrow> real option" where
  "ab_min_loop f [] alpha beta minEval = Some minEval"
| "ab_min_loop f (action # actions) alpha beta minEval =
     Option.bind (f beta action) (\<lambda>eval.
       let minEval' = min minEval eval; beta' = min beta minEval' in
       if alpha > beta' then Some minEval' else ab_min_loop f actions alpha beta' minEval')"

lemma ab_max_loop_mono [partial_function_mono]:
  assumes "\<And>al x. mono_option (\<lambda>F. C F al x)"
  shows "mono_option (\<lambda>F. ab_max_loop (\<lambda>al x. C F al x) xs alpha beta m)"
proof (induction xs arbitrary: alpha m)
  case Nil
  then show ?case by (simp add: option.const_mono)
next
  case (Cons x xs)
  then show ?case by (auto simp: Let_def intro!: bind_mono assms option.const_mono Partial_Function.if_mono)
qed

lemma ab_min_loop_mono [partial_function_mono]:
  assumes "\<And>be x. mono_option (\<lambda>F. C F be x)"
  shows "mono_option (\<lambda>F. ab_min_loop (\<lambda>be x. C F be x) xs alpha beta m)"
proof (induction xs arbitrary: beta m)
  case Nil
  then show ?case by (simp add: option.const_mono)
next
  case (Cons x xs)
  then show ?case by (auto simp: Let_def intro!: bind_mono assms option.const_mono Partial_Function.if_mono)
qed

partial_function (option) alphabeta ::
  "('s, 'a) game \<Rightarrow> 's search_agent \<Rightarrow> 's \<Rightarrow> int \<Rightarrow> real \<Rightarrow> real \<Rightarrow> nat \<Rightarrow> real option" where
  "alphabeta g self gameState d alpha beta agentIndex =
     (if isWin g gameState \<or> isLose g gameState \<or> d = depth self
      then Some (evaluationFunction self gameState)
      else if agentIndex = 0
      then ab_max_loop (\<lambda>alpha action.
               alphabeta g self (generateSuccessor g gameState agentIndex action) d alpha beta 1)
             (getLegalActions g gameState agentIndex) alpha beta (- sentinel)
      else ab_min_loop (\<lambda>beta action.
               if agentIndex = getNumAgents g gameState - 1
               then alphabeta g self (generateSuccessor g gameState agentIndex action) (d + 1) alpha beta 0
               else alphabeta g self (generateSuccessor g gameState agentIndex action) d alpha beta (agentIndex + 1))
             (getLegalActions g gameState agentIndex) alpha beta sentinel)"

text \<open>
  The root loop: \<open>eval\<close> and \<open>alpha\<close> start at \<open>-9999999\<close>, \<open>beta\<close> at \<open>9999999\<close>;
  after the update of the current best action, a value above \<open>beta\<close> returns at once.
\<close>

primrec alphabeta_root ::
  "('s, 'a) game \<Rightarrow> 's search_agent \<Rightarrow> 's \<Rightarrow> 'a list \<Rightarrow> real \<Rightarrow> real \<Rightarrow> real \<Rightarrow> 'a option \<Rightarrow> 'a option option" where
  "alphabeta_root g self gameState [] eval alpha beta resultAction = Some resultAction"
| "alphabeta_root g self gameState (action # actions) eval alpha beta resultAction =
     Option.bind (alphabeta g self (generateSuccessor g gameState 0 action) 0 alpha beta 1) (\<lambda>nextEval.
       let eval' = (if eval < nextEval then nextEval else eval);
           resultAction' = (if eval < nextEval then Some action else resultAction) in
       if nextEval > beta then Some resultAction'
       else alphabeta_root g self gameState actions eval' (max alpha nextEval) beta resultAction')"

definition AlphaBetaAgent_getAction :: "('s, 'a) game \<Rightarrow> 's search_agent \<Rightarrow> 's \<Rightarrow> 'a option option" where
  "AlphaBetaAgent_getAction g self gameState =
     alphabeta_root g self gameState (getLegalActions g gameState 0) (- sentinel) (- sentinel) sentinel None"

section \<open>The evaluations the search makes\<close>

text \<open>
  The pruning search with the log of the states it passes to \<open>self.evaluationFunction\<close>
  (line 202): the loops log each child's evaluations in order and stop logging where
  they break.
\<close>

primrec ab_max_evals ::
  "(real \<Rightarrow> 'a \<Rightarrow> (real \<times> 's list) option) \<Rightarrow> 'a list \<Rightarrow> real \<Rightarrow> real \<Rightarrow> real \<Rightarrow> (real \<times> 's list) option" where
  "ab_max_evals f [] alpha beta maxEval = Some (maxEval, [])"
| "ab_max_evals f (action # actions) alpha beta maxEval =
     Option.bind (f alpha action) (\<lambda>(eval, l).
       let maxEval' = max maxEval eval; alpha' = max alpha maxEval' in
       if alpha' > beta then Some (maxEval', l)
       else Option.bind (ab_max_evals f actions alpha' beta maxEval') (\<lambda>(m, l'). Some (m, l @ l')))"

primrec ab_min_evals ::
  "(real \<Rightarrow> 'a \<Rightarrow> (real \<times> 's list) option) \<Rightarrow> 'a list \<Rightarrow> real \<Rightarrow> real \<Rightarrow> real \<Rightarrow> (real \<times> 's list) option" where
  "ab_min_evals f [] alpha beta minEval = Some (minEval, [])"
| "ab_min_evals f (action # actions) alpha beta minEval =
     Option.bind (f beta action) (\<lambda>(eval, l).
       let minEval' = min minEval eval; beta' = min beta minEval' in
       if alpha > beta' then Some (minEval', l)
       else Option.bind (ab_min_evals f actions alpha beta' minEval') (\<lambda>(m, l'). Some (m, l @ l')))"

lemma ab_max_evals_mono [partial_function_mono]:
  assumes "\<And>al x. mono_option (\<lambda>F. C F al x)"
  shows "mono_option (\<lambda>F. ab_max_evals (\<lambda>al x. C F al x) xs alpha beta m)"
proof (induction xs arbitrary: alpha m)
  case Nil
  then show ?case by (simp add: option.const_mono)
next
  case (Cons x xs)
  then show ?case
    by (auto simp: Let_def split_def intro!: bind_mono assms option.const_mono Partial_Function.if_mono)
qed

lemma ab_min_evals_mono [partial_function_mono]:
  assumes "\<And>be x. mono_option (\<lambda>F. C F be x)"
  shows "mono_option (\<lambda>F. ab_min_evals (\<lambda>be x. C F be x) xs alpha beta m)"
proof (induction xs arbitrary: beta m)
  case Nil
  then show ?case by (simp add: option.const_mono)
next
  case (Cons x xs)
  then show ?case
    by (auto simp: Let_def split_def intro!: bind_mono assms option.const_mono Partial_Function.if_mono)
qed

partial_function (option) alphabeta_evals ::
  "('s, 'a) game \<Rightarrow> 's search_agent \<Rightarrow> 's \<Rightarrow> int \<Rightarrow> real \<Rightarrow> real \<Rightarrow> nat \<Rightarrow> (real \<times> 's list) option" where
  "alphabeta_evals g self gameState d alpha beta agentIndex =
     (if isWin g gameState \<or> isLose g gameState \<or> d = depth self
      then Some (evaluationFunction self gameState, [gameState])
      else if agentIndex = 0
      then ab_max_evals (\<lambda>alpha action.
               alphabeta_evals g self (generateSuccessor g gameState agentIndex action) d alpha beta 1)
             (getLegalActions g gameState agentIndex) alpha beta (- sentinel)
      else ab_min_evals (\<lambda>beta action.
               if agentIndex = getNumAgents g gameState - 1
               then alphabeta_evals g self (generateSuccessor g gameState agentIndex action) (d + 1) alpha beta 0
               else alphabeta_evals g self (generateSuccessor g gameState agentIndex action) d alpha beta (agentIndex + 1))
             (getLegalActions g gameState agentIndex) alpha beta sentinel)"

section \<open>Refinement to the tree search\<close>

lemma ab_max_loop_returns:
  "(\<And>al x. x \<in> set xs \<Longrightarrow> f al x = Some (ab_val (t x) al b)) \<Longrightarrow>
   ab_max_loop f xs a b m = Some (ab_maxs (map t xs) a b m)"
  by (induction xs arbitrary: a m) (auto simp: Let_def)

lemma ab_min_loop_returns:
  "(\<And>be x. x \<in> set xs \<Longrightarrow> f be x = Some (ab_val (t x) a be)) \<Longrightarrow>
   ab_min_loop f xs a b m = Some (ab_mins (map t xs) a b m)"
  by (induction xs arbitrary: b m) (auto simp: Let_def)

text \<open>
  The same unfolding for the pruning search: on the tree of \<open>game_tree\<close>, the search
  with window \<open>[alpha, beta]\<close> computes \<open>ab_val\<close>.
\<close>

lemma alphabeta_game_tree:
  assumes fixed: "agents_fixed g n" and two: "2 \<le> n"
  shows "i < n \<Longrightarrow> 0 \<le> d \<Longrightarrow> d \<le> depth self \<Longrightarrow> search_measure n (depth self) d i \<le> k \<Longrightarrow>
         alphabeta g self s d alpha beta i = Some (ab_val (game_tree k g self s d i) alpha beta)"
proof (induction k arbitrary: s d i alpha beta)
  case 0
  then show ?case by (simp add: search_measure_def)
next
  case (Suc k)
  show ?case
  proof (cases "search_cutoff g self (s, d, i)")
    case True
    then show ?thesis by (simp add: search_cutoff_def alphabeta.simps [of g self s d alpha beta i])
  next
    case False
    let ?P = "\<lambda>s' d' i'. \<forall>al be. alphabeta g self s' d' al be i' = Some (ab_val (game_tree k g self s' d' i') al be)"
    have "if i = 0 then ?P (generateSuccessor g s i a) d 1
          else if i = getNumAgents g s - 1 then ?P (generateSuccessor g s i a) (d + 1) 0
          else ?P (generateSuccessor g s i a) d (i + 1)"
      if "a \<in> set (getLegalActions g s i)" for a
      by (rule search_child_IH [where k = k, OF fixed two Suc.prems(1-3) _ False _ that]) (simp_all add: Suc.prems Suc.IH)
    with False show ?thesis unfolding alphabeta.simps [of g self s d alpha beta i]
      by (cases "i = 0") (auto simp: search_cutoff_def intro!: ab_max_loop_returns ab_min_loop_returns split: if_split_asm)
  qed
qed

section \<open>The evaluations of the two searches\<close>

text \<open>
  The loops with logs: given each child's value and a log of its pruning search that
  is a subsequence of the log of its minimax search (for every window), the loop's log
  is a subsequence of the concatenated minimax logs.
\<close>

lemma subseq_append_right: "subseq xs ys \<Longrightarrow> subseq xs (ys @ zs)"
  using list_emb_append_mono [of "(=)" xs ys "[]" zs] by simp

lemma ab_max_evals_subseq:
  "(\<And>al x. x \<in> set xs \<Longrightarrow> \<exists>L. f al x = Some (ab_val (t x) al b, L) \<and> subseq L (lg x)) \<Longrightarrow>
   \<exists>L. ab_max_evals f xs a b m = Some (ab_maxs (map t xs) a b m, L) \<and> subseq L (concat (map lg xs))"
proof (induction xs arbitrary: a m)
  case (Cons x xs)
  obtain L where L: "f a x = Some (ab_val (t x) a b, L)" "subseq L (lg x)" using Cons.prems by force
  show ?case
  proof (cases "b < max a (max m (ab_val (t x) a b))")
    case True
    then show ?thesis using L subseq_append_right [OF L(2)] by (simp add: Let_def)
  next
    case False
    obtain L' where "ab_max_evals f xs (max a (max m (ab_val (t x) a b))) b (max m (ab_val (t x) a b)) =
        Some (ab_maxs (map t xs) (max a (max m (ab_val (t x) a b))) b (max m (ab_val (t x) a b)), L')"
      "subseq L' (concat (map lg xs))"
      using Cons.IH Cons.prems by force
    then show ?thesis using L False by (auto simp: Let_def intro: list_emb_append_mono)
  qed
qed simp

lemma ab_min_evals_subseq:
  "(\<And>be x. x \<in> set xs \<Longrightarrow> \<exists>L. f be x = Some (ab_val (t x) a be, L) \<and> subseq L (lg x)) \<Longrightarrow>
   \<exists>L. ab_min_evals f xs a b m = Some (ab_mins (map t xs) a b m, L) \<and> subseq L (concat (map lg xs))"
proof (induction xs arbitrary: b m)
  case (Cons x xs)
  obtain L where L: "f b x = Some (ab_val (t x) a b, L)" "subseq L (lg x)" using Cons.prems by force
  show ?case
  proof (cases "min b (min m (ab_val (t x) a b)) < a")
    case True
    then show ?thesis using L subseq_append_right [OF L(2)] by (simp add: Let_def)
  next
    case False
    obtain L' where "ab_min_evals f xs a (min b (min m (ab_val (t x) a b))) (min m (ab_val (t x) a b)) =
        Some (ab_mins (map t xs) a (min b (min m (ab_val (t x) a b))) (min m (ab_val (t x) a b)), L')"
      "subseq L' (concat (map lg xs))"
      using Cons.IH Cons.prems by force
    then show ?thesis using L False by (auto simp: Let_def intro: list_emb_append_mono)
  qed
qed simp

text \<open>One node of each kind, from the children's logs.\<close>

lemma evals_node_max:
  assumes "\<forall>a\<in>set xs. \<exists>M. mc a = Some (mm_val (t a), M) \<and>
             (\<forall>al be. \<exists>L. ac al be a = Some (ab_val (t a) al be, L) \<and> subseq L M)"
  shows "\<exists>M. for_opt mc (\<lambda>(m, l) (v, l'). (max m v, l @ l')) xs (- sentinel, []) = Some (mm_val (MMax (map t xs)), M) \<and>
         (\<forall>al be. \<exists>L. ab_max_evals (\<lambda>al' a. ac al' be a) xs al be (- sentinel) =
           Some (ab_val (MMax (map t xs)) al be, L) \<and> subseq L M)"
proof -
  from bchoice [OF assms] obtain lg where lg: "\<forall>a\<in>set xs. mc a = Some (mm_val (t a), lg a) \<and>
      (\<forall>al be. \<exists>L. ac al be a = Some (ab_val (t a) al be, L) \<and> subseq L (lg a))" by blast
  show ?thesis
    using lg for_opt_log [of xs mc "\<lambda>a. mm_val (t a)" lg max "- sentinel" "[]"]
      ab_max_evals_subseq [of xs "\<lambda>al' a. ac al' _ a" t _ lg]
    by (simp add: comp_def)
qed

lemma evals_node_min:
  assumes "\<forall>a\<in>set xs. \<exists>M. mc a = Some (mm_val (t a), M) \<and>
             (\<forall>al be. \<exists>L. ac al be a = Some (ab_val (t a) al be, L) \<and> subseq L M)"
  shows "\<exists>M. for_opt mc (\<lambda>(m, l) (v, l'). (min m v, l @ l')) xs (sentinel, []) = Some (mm_val (MMin (map t xs)), M) \<and>
         (\<forall>al be. \<exists>L. ab_min_evals (\<lambda>be' a. ac al be' a) xs al be sentinel =
           Some (ab_val (MMin (map t xs)) al be, L) \<and> subseq L M)"
proof -
  from bchoice [OF assms] obtain lg where lg: "\<forall>a\<in>set xs. mc a = Some (mm_val (t a), lg a) \<and>
      (\<forall>al be. \<exists>L. ac al be a = Some (ab_val (t a) al be, L) \<and> subseq L (lg a))" by blast
  show ?thesis
    using lg for_opt_log [of xs mc "\<lambda>a. mm_val (t a)" lg min sentinel "[]"]
      ab_min_evals_subseq [of xs "\<lambda>be' a. ac _ be' a" t _ lg]
    by (simp add: comp_def)
qed

text \<open>
  On a game with a fixed number \<open>n \<ge> 2\<close> of agents, both logged searches return
  with the values of the unfolded tree, and for every window the log of the pruning
  search is a subsequence of the log of \<open>minimax\<close>. Induction on the fuel, node by
  node with \<open>evals_node_max\<close> and \<open>evals_node_min\<close>.
\<close>

lemma evals_game_tree:
  assumes fixed: "agents_fixed g n" and two: "2 \<le> n"
  shows "i < n \<Longrightarrow> 0 \<le> d \<Longrightarrow> d \<le> depth self \<Longrightarrow> search_measure n (depth self) d i \<le> k \<Longrightarrow>
         \<exists>M. minimax_evals g self s d i = Some (mm_val (game_tree k g self s d i), M) \<and>
           (\<forall>al be. \<exists>L. alphabeta_evals g self s d al be i = Some (ab_val (game_tree k g self s d i) al be, L) \<and>
                         subseq L M)"
proof (induction k arbitrary: s d i)
  case 0
  then show ?case by (simp add: search_measure_def)
next
  case (Suc k)
  let ?P = "\<lambda>s' d' i'. \<exists>M. minimax_evals g self s' d' i' = Some (mm_val (game_tree k g self s' d' i'), M) \<and>
     (\<forall>al be. \<exists>L. alphabeta_evals g self s' d' al be i' = Some (ab_val (game_tree k g self s' d' i') al be, L) \<and>
                   subseq L M)"
  note unfold = minimax_evals.simps [of g self s d] alphabeta_evals.simps [of g self s d] search_cutoff_def
  show ?case
  proof (cases "search_cutoff g self (s, d, i)")
    case True
    then show ?thesis by (simp add: unfold)
  next
    case False
    have child: "if i = 0 then ?P (generateSuccessor g s i a) d 1
          else if i = getNumAgents g s - 1 then ?P (generateSuccessor g s i a) (d + 1) 0
          else ?P (generateSuccessor g s i a) d (i + 1)"
      if "a \<in> set (getLegalActions g s i)" for a
      by (rule search_child_IH [where k = k, OF fixed two Suc.prems(1-3) _ False _ that]) (simp_all add: Suc.prems Suc.IH)
    consider (pacman) "i = 0" | (last) "i \<noteq> 0" "i = getNumAgents g s - 1" | (inner) "i \<noteq> 0" "i \<noteq> getNumAgents g s - 1"
      by blast
    then show ?thesis
    proof cases
      case pacman
      with child have "\<forall>a\<in>set (getLegalActions g s i). ?P (generateSuccessor g s i a) d 1" by simp
      from evals_node_max [OF this] pacman False show ?thesis by (simp add: unfold)
    next
      case last
      with child have "\<forall>a\<in>set (getLegalActions g s i). ?P (generateSuccessor g s i a) (d + 1) 0" by simp
      from evals_node_min [OF this] last False show ?thesis by (simp add: unfold)
    next
      case inner
      with child have "\<forall>a\<in>set (getLegalActions g s i). ?P (generateSuccessor g s i a) d (i + 1)" by simp
      from evals_node_min [OF this] inner False show ?thesis by (simp add: unfold)
    qed
  qed
qed

section \<open>The root loop\<close>

lemma alphabeta_root_legal:
  "alphabeta_root g self s as e al be r = Some (Some a) \<Longrightarrow> a \<in> set as \<or> r = Some a"
  by (induction as arbitrary: e al r) (fastforce simp: Let_def split: Option.bind_splits if_splits)+

lemma alphabeta_root_returns:
  "(\<And>a al. a \<in> set as \<Longrightarrow> \<exists>v. alphabeta g self (generateSuccessor g s 0 a) 0 al be 1 = Some v) \<Longrightarrow>
   \<exists>r. alphabeta_root g self s as e al be r0 = Some r"
proof (induction as arbitrary: e al r0)
  case Nil
  then show ?case by simp
next
  case (Cons a as)
  obtain v where v: "alphabeta g self (generateSuccessor g s 0 a) 0 al be 1 = Some v"
    using Cons.prems by auto
  have "\<exists>r. alphabeta_root g self s as e' al' be r' = Some r" for e' al' r'
    using Cons.prems by (intro Cons.IH) auto
  then show ?case using v by (auto simp: Let_def)
qed

text \<open>
  When no cut-off value exceeds the sentinel, the root loops of the two agents agree
  action by action: the child searched with window \<open>[eval, 9999999]\<close> moves the running
  best value exactly as its minimax value does (\<open>fail_soft_root_step\<close>), so the
  running \<open>alpha\<close> stays equal to \<open>eval\<close> and the early return never fires.
\<close>

lemma alphabeta_root_minimax_root:
  assumes fixed: "agents_fixed g n" and two: "2 \<le> n" and D: "0 \<le> depth self"
    and bound: "\<And>s. evaluationFunction self s \<le> sentinel"
  shows "e \<le> sentinel \<Longrightarrow> alphabeta_root g self s as e e sentinel r = minimax_root g self s as e r"
proof (induction as arbitrary: e r)
  case Nil
  then show ?case by simp
next
  case (Cons a as)
  let ?t = "game_tree (search_measure n (depth self) 0 1) g self (generateSuccessor g s 0 a) 0 1"
  have mm: "minimax g self (generateSuccessor g s 0 a) 0 1 = Some (mm_val ?t)"
    using minimax_game_tree [OF fixed two] two D by simp
  have ab: "alphabeta g self (generateSuccessor g s 0 a) 0 e sentinel 1 = Some (ab_val ?t e sentinel)"
    using alphabeta_game_tree [OF fixed two] two D by simp
  have v: "mm_val ?t \<le> sentinel" using bound by (rule game_tree_le_sentinel)
  have "fail_soft e sentinel (mm_val ?t) (ab_val ?t e sentinel)"
    using ab_fail_soft(1) Cons.prems .
  from fail_soft_root_step [OF this Cons.prems v] have step:
    "(e < ab_val ?t e sentinel \<longleftrightarrow> e < mm_val ?t)" "e < mm_val ?t \<longrightarrow> ab_val ?t e sentinel = mm_val ?t"
    "\<not> sentinel < ab_val ?t e sentinel" "max e (ab_val ?t e sentinel) = max e (mm_val ?t)"
    by auto
  have "(if e < mm_val ?t then mm_val ?t else e) = max e (mm_val ?t)" by (simp add: max_def)
  moreover have "max e (mm_val ?t) \<le> sentinel" using Cons.prems v by simp
  ultimately show ?case
    using Cons.IH [of "max e (mm_val ?t)"] mm ab step by (auto simp: Let_def max_def)
qed

text \<open>Past the configured depth the pruning search does not return either.\<close>

lemma alphabeta_past_depth_None:
  assumes moves: "\<And>s i. getLegalActions g s i \<noteq> []"
    and nw: "\<And>s. \<not> isWin g s" and nl: "\<And>s. \<not> isLose g s"
    and past: "depth self < d"
  shows "alphabeta g self s d alpha beta i = None"
proof (rule ccontr)
  assume "alphabeta g self s d alpha beta i \<noteq> None"
  then obtain v where ret: "alphabeta g self s d alpha beta i = Some v" by blast
  have "g = g \<longrightarrow> self = self \<longrightarrow> depth self < d \<longrightarrow> False"
  apply (rule alphabeta.raw_induct
      [where P = "\<lambda>g' self' s' d' al' be' i' v'. g' = g \<longrightarrow> self' = self \<longrightarrow> depth self < d' \<longrightarrow> False", OF _ ret])
  subgoal premises prems for f g' self' s' d' al' be' i' v'
  proof (intro impI)
    assume g: "g' = g" and self: "self' = self" and d: "depth self < d'"
    obtain a as where legal: "getLegalActions g s' i' = a # as"
      using moves by (cases "getLegalActions g s' i'") auto
    from prems(2) g self d nw nl legal
    obtain d'' al'' be'' i'' w where "f g self (generateSuccessor g s' i' a) d'' al'' be'' i'' = Some w" "d' \<le> d''"
      by (fastforce split: Option.bind_splits if_splits)
    from prems(1) [OF this(1)] this(2) d show False by simp
  qed
  done
  with past show False by simp
qed

section \<open>Properties\<close>

text \<open>
  C2: On a game with a fixed number \<open>n \<ge> 2\<close> of agents, the pruning search with any
  window \<open>alpha \<le> beta\<close> returns, and its result is related to the minimax value by
  Knuth and Moore's fail-soft condition: below the window it bounds the value from
  above, inside the window it is the value, above the window it bounds it from below.
\<close>

theorem alphabeta_fail_soft_minimax:
  assumes "agents_fixed g n" "2 \<le> n" "i < n" "0 \<le> d" "d \<le> depth self" "alpha \<le> beta"
  shows "\<exists>v r. minimax g self s d i = Some v \<and> alphabeta g self s d alpha beta i = Some r \<and>
                fail_soft alpha beta v r"
  using minimax_game_tree [OF assms(1-5) order.refl] alphabeta_game_tree [OF assms(1-5) order.refl]
    ab_fail_soft(1) [OF assms(6)] by blast

theorem alphabeta_fail_soft_minimax_witness:
  "agents_fixed tiny_game 2 \<and> (1::nat) < 2 \<and> 0 \<le> depth (tiny_agent 1) \<and> (4::real) \<le> 10 \<and>
   minimax tiny_game (tiny_agent 1) [0] 0 1 = Some 3 \<and>
   alphabeta tiny_game (tiny_agent 1) [0] 0 4 10 1 = Some 3 \<and> fail_soft 4 10 3 3"
proof -
  have "\<exists>v r. minimax tiny_game (tiny_agent 1) [0] 0 1 = Some v \<and>
     alphabeta tiny_game (tiny_agent 1) [0] 0 4 10 1 = Some r \<and> fail_soft 4 10 v r"
    by (rule alphabeta_fail_soft_minimax [OF tiny_game_fixed]) (simp_all add: tiny_agent_def)
  moreover have "minimax tiny_game (tiny_agent 1) [0] 0 1 = Some 3"
    by (simp add: minimax.simps search_simps)
  moreover have "alphabeta tiny_game (tiny_agent 1) [0] 0 4 10 1 = Some 3"
    by (simp add: alphabeta.simps search_simps)
  ultimately show ?thesis by (auto simp: agents_fixed_def search_simps)
qed

text \<open>
  C5: \<open>AlphaBetaAgent.getAction\<close> returns on every game with a fixed number of at least
  two agents and a non-negative configured depth.
\<close>

theorem AlphaBetaAgent_getAction_returns:
  assumes "agents_fixed g n" "2 \<le> n" "0 \<le> depth self"
  shows "\<exists>r. AlphaBetaAgent_getAction g self s = Some r"
proof -
  have "\<exists>v. alphabeta g self (generateSuccessor g s 0 a) 0 al sentinel 1 = Some v" for a al
    using alphabeta_game_tree [OF assms(1,2), of 1 0 self "search_measure n (depth self) 0 1"] assms(2,3)
    by auto
  then show ?thesis unfolding AlphaBetaAgent_getAction_def by (intro alphabeta_root_returns) blast
qed

theorem AlphaBetaAgent_getAction_returns_witness:
  "agents_fixed tiny_game 2 \<and> (2::nat) \<le> 2 \<and> 0 \<le> depth (tiny_agent 1) \<and>
   (\<exists>r. AlphaBetaAgent_getAction tiny_game (tiny_agent 1) [] = Some r)"
  using AlphaBetaAgent_getAction_returns [OF tiny_game_fixed, of "tiny_agent 1" "[]"]
  by (simp add: tiny_game_fixed tiny_agent_def)

text \<open>
  C15: Alpha-beta never evaluates more than minimax, and its cuts skip the remaining
  children. On a game with a fixed number \<open>n \<ge> 2\<close> of agents, below the configured
  depth and for any window, both searches return, the logged searches return the same
  values, and the states the pruning search passes to \<open>self.evaluationFunction\<close> are,
  in order, a subsequence of those \<open>minimax\<close> passes. At Pacman's node, once the first
  child's value lifts \<open>alpha\<close> above \<open>beta\<close>, the search returns with that child's
  evaluations only.
\<close>

theorem alphabeta_evaluates_subsequence:
  assumes "agents_fixed g n" "2 \<le> n" "i < n" "0 \<le> d" "d \<le> depth self"
  shows "(\<exists>r v L M. alphabeta g self s d alpha beta i = Some r \<and> alphabeta_evals g self s d alpha beta i = Some (r, L) \<and>
             minimax g self s d i = Some v \<and> minimax_evals g self s d i = Some (v, M) \<and> subseq L M) \<and>
         (\<not> search_cutoff g self (s, d, 0) \<longrightarrow> getLegalActions g s 0 = a # as \<longrightarrow>
            alphabeta_evals g self (generateSuccessor g s 0 a) d alpha beta 1 = Some (r1, L1) \<longrightarrow>
            beta < max alpha (max (- sentinel) r1) \<longrightarrow>
            alphabeta_evals g self s d alpha beta 0 = Some (max (- sentinel) r1, L1))"
proof
  show "\<exists>r v L M. alphabeta g self s d alpha beta i = Some r \<and> alphabeta_evals g self s d alpha beta i = Some (r, L) \<and>
      minimax g self s d i = Some v \<and> minimax_evals g self s d i = Some (v, M) \<and> subseq L M"
    using alphabeta_game_tree [OF assms order.refl] minimax_game_tree [OF assms order.refl]
      evals_game_tree [OF assms order.refl] by blast
  show "\<not> search_cutoff g self (s, d, 0) \<longrightarrow> getLegalActions g s 0 = a # as \<longrightarrow>
      alphabeta_evals g self (generateSuccessor g s 0 a) d alpha beta 1 = Some (r1, L1) \<longrightarrow>
      beta < max alpha (max (- sentinel) r1) \<longrightarrow>
      alphabeta_evals g self s d alpha beta 0 = Some (max (- sentinel) r1, L1)"
    by (subst alphabeta_evals.simps) (simp add: search_cutoff_def Let_def)
qed

theorem alphabeta_evaluates_subsequence_witness:
  "alphabeta tiny_game (tiny_agent 1) [] 0 (- sentinel) 2 0 = Some 3 \<and>
   alphabeta_evals tiny_game (tiny_agent 1) [] 0 (- sentinel) 2 0 = Some (3, [[0, 0], [0, 1]]) \<and>
   minimax tiny_game (tiny_agent 1) [] 0 0 = Some 5 \<and>
   minimax_evals tiny_game (tiny_agent 1) [] 0 0 = Some (5, [[0, 0], [0, 1], [1, 0], [1, 1]]) \<and>
   subseq [[0, 0], [0, 1]] [[0::nat, 0], [0, 1], [1, 0], [1, 1]]"
proof -
  have h: "agents_fixed tiny_game 2" "(2::nat) \<le> 2" "(0::nat) < 2" "(0::int) \<le> 0" "0 \<le> depth (tiny_agent 1)"
    by (simp_all add: agents_fixed_def search_simps)
  have c: "\<not> search_cutoff tiny_game (tiny_agent 1) ([], 0, 0)" "getLegalActions tiny_game [] 0 = 0 # [1]"
    "alphabeta_evals tiny_game (tiny_agent 1) (generateSuccessor tiny_game [] 0 0) 0 (- sentinel) 2 1 =
       Some (3, [[0, 0], [0, 1]])"
    "(2::real) < max (- sentinel) (max (- sentinel) 3)"
    by (simp_all add: search_cutoff_def alphabeta_evals.simps search_simps)
  from alphabeta_evaluates_subsequence [OF h, of "[]" "- sentinel" 2 0 "[1]" 3 "[[0, 0], [0, 1]]"] c
  have "alphabeta_evals tiny_game (tiny_agent 1) [] 0 (- sentinel) 2 0 = Some (3, [[0, 0], [0, 1]])" by simp
  moreover have "alphabeta tiny_game (tiny_agent 1) [] 0 (- sentinel) 2 0 = Some 3"
    by (simp add: alphabeta.simps search_simps)
  moreover have "minimax tiny_game (tiny_agent 1) [] 0 0 = Some 5"
    "minimax_evals tiny_game (tiny_agent 1) [] 0 0 = Some (5, [[0, 0], [0, 1], [1, 0], [1, 1]])"
    by (simp_all add: minimax.simps minimax_evals.simps search_simps)
  ultimately show ?thesis by simp
qed

end
