(* ===== verification/Expectimax.thy ===== *)
theory Expectimax
  imports GameTree ExampleGames
begin

text \<open>
  \<open>ExpectimaxAgent\<close> of \<open>src/multiAgents.py\<close>: \<open>getAction\<close> and the mutually
  recursive methods \<open>Max_Value(gameState, depth)\<close> and
  \<open>Min_Value(gameState, agentIndex, depth)\<close>. \<^theory_text>\<open>partial_function\<close> admits one
  recursive function, so the two methods are the two kinds of call (\<open>ex_call\<close>) of one
  function \<open>expectimax\<close>, and \<open>Max_Value\<close>, \<open>Min_Value\<close> are that function at the
  corresponding call. The list comprehensions are \<open>map_opt\<close>.

  Unlike the other searches, \<open>Max_Value\<close> stops at the configured depth or when Pacman
  has no move, never at \<open>isWin\<close>/\<open>isLose\<close>, and \<open>Min_Value\<close> has no depth test at
  all; the root calls \<open>Min_Value\<close> at depth 0 and the first test of the depth happens
  at depth 1.
\<close>

datatype 's ex_call = MaxValue 's int | MinValue 's nat int

partial_function (option) expectimax :: "('s, 'a) game \<Rightarrow> 's search_agent \<Rightarrow> 's ex_call \<Rightarrow> real option" where
  "expectimax g self call =
     (case call of
        MaxValue gameState d \<Rightarrow>
          if d = depth self \<or> length (getLegalActions g gameState 0) = 0
          then Some (evaluationFunction self gameState)
          else Option.bind (map_opt (\<lambda>action. expectimax g self (MinValue (generateSuccessor g gameState 0 action) 1 d))
                              (getLegalActions g gameState 0))
                 (\<lambda>vs. Some (Max (set vs)))
      | MinValue gameState agentIndex d \<Rightarrow>
          (let num_actions = length (getLegalActions g gameState agentIndex) in
           if num_actions = 0 then Some (evaluationFunction self gameState)
           else if agentIndex < getNumAgents g gameState - 1
           then Option.bind (map_opt (\<lambda>action.
                    expectimax g self (MinValue (generateSuccessor g gameState agentIndex action) (agentIndex + 1) d))
                  (getLegalActions g gameState agentIndex))
                  (\<lambda>vs. Some (sum_list vs / real num_actions))
           else Option.bind (map_opt (\<lambda>action.
                    expectimax g self (MaxValue (generateSuccessor g gameState agentIndex action) (d + 1)))
                  (getLegalActions g gameState agentIndex))
                  (\<lambda>vs. Some (sum_list vs / real num_actions))))"

definition Max_Value :: "('s, 'a) game \<Rightarrow> 's search_agent \<Rightarrow> 's \<Rightarrow> int \<Rightarrow> real option" where
  "Max_Value g self gameState d = expectimax g self (MaxValue gameState d)"

definition Min_Value :: "('s, 'a) game \<Rightarrow> 's search_agent \<Rightarrow> 's \<Rightarrow> nat \<Rightarrow> int \<Rightarrow> real option" where
  "Min_Value g self gameState agentIndex d = expectimax g self (MinValue gameState agentIndex d)"

text \<open>
  The root loop: \<open>max_value\<close> starts at \<open>float('-inf')\<close> and \<open>max_action\<close> at
  \<open>None\<close>; an action replaces the current one when its value is strictly greater.
\<close>

primrec expectimax_root ::
  "('s, 'a) game \<Rightarrow> 's search_agent \<Rightarrow> 's \<Rightarrow> 'a list \<Rightarrow> xreal \<Rightarrow> 'a option \<Rightarrow> 'a option option" where
  "expectimax_root g self gameState [] max_value max_action = Some max_action"
| "expectimax_root g self gameState (action # actions) max_value max_action =
     Option.bind (Min_Value g self (generateSuccessor g gameState 0 action) 1 0) (\<lambda>action_value.
       if Fin action_value > max_value
       then expectimax_root g self gameState actions (Fin action_value) (Some action)
       else expectimax_root g self gameState actions max_value max_action)"

definition ExpectimaxAgent_getAction :: "('s, 'a) game \<Rightarrow> 's search_agent \<Rightarrow> 's \<Rightarrow> 'a option option" where
  "ExpectimaxAgent_getAction g self gameState =
     expectimax_root g self gameState (getLegalActions g gameState 0) NegInf None"

text \<open>\<open>Max_Value\<close>, read back from the combined function.\<close>

lemma Max_Value_eq:
  "Max_Value g self gameState d =
     (if d = depth self \<or> length (getLegalActions g gameState 0) = 0
      then Some (evaluationFunction self gameState)
      else Option.bind (map_opt (\<lambda>action. Min_Value g self (generateSuccessor g gameState 0 action) 1 d)
                          (getLegalActions g gameState 0))
             (\<lambda>vs. Some (Max (set vs))))"
  unfolding Max_Value_def Min_Value_def by (subst expectimax.simps) simp

section \<open>One call of the search\<close>

text \<open>
  The parts of one call of \<open>Max_Value\<close> or \<open>Min_Value\<close>: the state it evaluates, the
  test that makes it a leaf (\<open>depth == self.depth\<close> or no move for \<open>Max_Value\<close>,
  \<open>num_actions == 0\<close> for \<open>Min_Value\<close>), the calls of its list comprehension, and
  how it combines their values (\<open>max\<close>, or the sum divided by \<open>num_actions\<close>).
\<close>

fun ex_state :: "'s ex_call \<Rightarrow> 's" where
  "ex_state (MaxValue s d) = s"
| "ex_state (MinValue s i d) = s"

fun ex_leaf :: "('s, 'a) game \<Rightarrow> 's search_agent \<Rightarrow> 's ex_call \<Rightarrow> bool" where
  "ex_leaf g self (MaxValue s d) \<longleftrightarrow> d = depth self \<or> length (getLegalActions g s 0) = 0"
| "ex_leaf g self (MinValue s i d) \<longleftrightarrow> length (getLegalActions g s i) = 0"

fun ex_children :: "('s, 'a) game \<Rightarrow> 's ex_call \<Rightarrow> 's ex_call list" where
  "ex_children g (MaxValue s d) = map (\<lambda>a. MinValue (generateSuccessor g s 0 a) 1 d) (getLegalActions g s 0)"
| "ex_children g (MinValue s i d) =
     (if i < getNumAgents g s - 1
      then map (\<lambda>a. MinValue (generateSuccessor g s i a) (i + 1) d) (getLegalActions g s i)
      else map (\<lambda>a. MaxValue (generateSuccessor g s i a) (d + 1)) (getLegalActions g s i))"

fun ex_combine :: "('s, 'a) game \<Rightarrow> 's ex_call \<Rightarrow> real list \<Rightarrow> real" where
  "ex_combine g (MaxValue s d) vs = Max (set vs)"
| "ex_combine g (MinValue s i d) vs = sum_list vs / real (length (getLegalActions g s i))"

lemma ex_children_nonempty: "\<not> ex_leaf g self c \<Longrightarrow> ex_children g c \<noteq> []"
  by (cases c) auto

text \<open>
  The body of \<open>expectimax\<close>, over any function for the recursive calls, is a leaf or
  the combination of the values of the calls of \<open>ex_children\<close>.
\<close>

lemma expectimax_body:
  "(case c of
      MaxValue gameState d \<Rightarrow>
        if d = depth self \<or> length (getLegalActions g gameState 0) = 0
        then Some (evaluationFunction self gameState)
        else Option.bind (map_opt (\<lambda>action. f g self (MinValue (generateSuccessor g gameState 0 action) 1 d))
                            (getLegalActions g gameState 0))
               (\<lambda>vs. Some (Max (set vs)))
    | MinValue gameState agentIndex d \<Rightarrow>
        (let num_actions = length (getLegalActions g gameState agentIndex) in
         if num_actions = 0 then Some (evaluationFunction self gameState)
         else if agentIndex < getNumAgents g gameState - 1
         then Option.bind (map_opt (\<lambda>action.
                  f g self (MinValue (generateSuccessor g gameState agentIndex action) (agentIndex + 1) d))
                (getLegalActions g gameState agentIndex))
                (\<lambda>vs. Some (sum_list vs / real num_actions))
         else Option.bind (map_opt (\<lambda>action.
                  f g self (MaxValue (generateSuccessor g gameState agentIndex action) (d + 1)))
                (getLegalActions g gameState agentIndex))
                (\<lambda>vs. Some (sum_list vs / real num_actions)))) =
   (if ex_leaf g self c then Some (evaluationFunction self (ex_state c))
    else Option.bind (map_opt (f g self) (ex_children g c)) (\<lambda>vs. Some (ex_combine g c vs)))"
  by (cases c) (simp_all add: Let_def map_opt_map comp_def)

lemma expectimax_unfold:
  "expectimax g self c =
     (if ex_leaf g self c then Some (evaluationFunction self (ex_state c))
      else Option.bind (map_opt (expectimax g self) (ex_children g c)) (\<lambda>vs. Some (ex_combine g c vs)))"
  by (subst expectimax.simps) (rule expectimax_body)

text \<open>
  Induction over the calls of a search that returned (\<open>expectimax.raw_induct\<close>): a
  property of the leaves that every combination of children's values keeps holds of
  every value the search returns.
\<close>

lemma expectimax_induct [consumes 1, case_names leaf node]:
  assumes ret: "expectimax g self c = Some v"
    and leaf: "\<And>c. ex_leaf g self c \<Longrightarrow> P c (evaluationFunction self (ex_state c))"
    and node: "\<And>c vs. \<not> ex_leaf g self c \<Longrightarrow> ex_children g c \<noteq> [] \<Longrightarrow>
                 list_all2 P (ex_children g c) vs \<Longrightarrow> P c (ex_combine g c vs)"
  shows "P c v"
proof -
  have "g = g \<longrightarrow> self = self \<longrightarrow> P c v"
  apply (rule expectimax.raw_induct [where P = "\<lambda>g' self' c' v'. g' = g \<longrightarrow> self' = self \<longrightarrow> P c' v'", OF _ ret])
  subgoal premises prems for f g' self' c' v'
  proof (intro impI)
    assume g: "g' = g" and self: "self' = self"
    note eq = prems(2) [unfolded expectimax_body g self]
    show "P c' v'"
    proof (cases "ex_leaf g self c'")
      case True
      with eq leaf show ?thesis by auto
    next
      case False
      with eq obtain vs where vs: "map_opt (f g self) (ex_children g c') = Some vs"
        and v': "v' = ex_combine g c' vs"
        by (auto split: Option.bind_splits)
      from map_opt_SomeD [OF vs] have "list_all2 P (ex_children g c') vs"
        by (rule list_all2_mono) (use prems(1) in blast)
      with False v' show ?thesis by (simp add: node ex_children_nonempty)
    qed
  qed
  done
  then show ?thesis by simp
qed

section \<open>The tree searched\<close>

fun ex_tree :: "nat \<Rightarrow> ('s, 'a) game \<Rightarrow> 's search_agent \<Rightarrow> 's ex_call \<Rightarrow> etree" where
  "ex_tree 0 g self c = ELeaf 0"
| "ex_tree (Suc k) g self (MaxValue s d) =
     (if d = depth self \<or> length (getLegalActions g s 0) = 0 then ELeaf (evaluationFunction self s)
      else EMax (map (\<lambda>a. ex_tree k g self (MinValue (generateSuccessor g s 0 a) 1 d)) (getLegalActions g s 0)))"
| "ex_tree (Suc k) g self (MinValue s i d) =
     (if length (getLegalActions g s i) = 0 then ELeaf (evaluationFunction self s)
      else if i < getNumAgents g s - 1
      then EAvg (map (\<lambda>a. ex_tree k g self (MinValue (generateSuccessor g s i a) (i + 1) d)) (getLegalActions g s i))
      else EAvg (map (\<lambda>a. ex_tree k g self (MaxValue (generateSuccessor g s i a) (d + 1))) (getLegalActions g s i)))"

text \<open>
  Calls the search makes from a call within the configured depth \<open>D\<close>: \<open>Max_Value\<close>
  at a ply up to \<open>D\<close>, \<open>Min_Value\<close> at a ply below \<open>D\<close>. \<open>ex_measure\<close> decreases
  along every call when the number of agents \<open>n\<close> is positive.
\<close>

fun ex_ok :: "int \<Rightarrow> 's ex_call \<Rightarrow> bool" where
  "ex_ok D (MaxValue s d) = (d \<le> D)"
| "ex_ok D (MinValue s i d) = (d < D)"

fun ex_measure :: "nat \<Rightarrow> int \<Rightarrow> 's ex_call \<Rightarrow> nat" where
  "ex_measure n D (MaxValue s d) = nat (D - d) * (n + 1)"
| "ex_measure n D (MinValue s i d) = nat (D - d - 1) * (n + 1) + (n - i) + 1"

lemma ex_measure_max_min:
  "d < D \<Longrightarrow> 1 \<le> n \<Longrightarrow> ex_measure n D (MinValue s' 1 d) < ex_measure n D (MaxValue s d)"
proof -
  assume "d < D" "1 \<le> n"
  then have "nat (D - d) = Suc (nat (D - d - 1))" by simp
  with \<open>1 \<le> n\<close> show ?thesis by simp
qed

lemma ex_ok_parent: "c' \<in> set (ex_children g c) \<Longrightarrow> ex_ok D c' \<Longrightarrow> ex_ok D c"
  by (cases c) (auto split: if_splits)

lemma ex_children_measure:
  assumes n: "getNumAgents g (ex_state c) = n" and one: "1 \<le> n"
    and node: "\<not> ex_leaf g self c" and ok: "ex_ok (depth self) c" and child: "c' \<in> set (ex_children g c)"
  shows "ex_ok (depth self) c' \<and> ex_measure n (depth self) c' < ex_measure n (depth self) c"
proof (cases c)
  case (MaxValue s d)
  with node ok have "d < depth self" by auto
  with MaxValue child ex_measure_max_min [OF this one] show ?thesis by auto
next
  case (MinValue s i d)
  with n ok child show ?thesis by (auto simp: diff_diff_eq split: if_splits)
qed

text \<open>One unfolding of the tree, in the parts of a call.\<close>

lemma ex_tree_Suc:
  "ex_tree (Suc k) g self c =
     (if ex_leaf g self c then ELeaf (evaluationFunction self (ex_state c))
      else (case c of MaxValue s d \<Rightarrow> EMax | MinValue s i d \<Rightarrow> EAvg) (map (ex_tree k g self) (ex_children g c)))"
  by (cases c) simp_all

lemma ex_val_node:
  "ex_val ((case c of MaxValue s d \<Rightarrow> EMax | MinValue s i d \<Rightarrow> EAvg) (map t (ex_children g c))) =
   ex_combine g c (map (\<lambda>x. ex_val (t x)) (ex_children g c))"
  by (cases c) (simp_all add: comp_def)

section \<open>Refinement to the tree value\<close>

text \<open>
  With a fixed number \<open>n \<ge> 1\<close> of agents, a call within the configured depth and
  fuel above \<open>ex_measure\<close>, the search returns the value of the unfolded tree.
\<close>

lemma expectimax_ex_tree:
  assumes fixed: "agents_fixed g n" and one: "1 \<le> n"
  shows "ex_ok (depth self) c \<Longrightarrow> ex_measure n (depth self) c < k \<Longrightarrow>
         expectimax g self c = Some (ex_val (ex_tree k g self c))"
proof (induction k arbitrary: c)
  case 0
  then show ?case by simp
next
  case (Suc k)
  have n: "getNumAgents g (ex_state c) = n" using fixed by (simp add: agents_fixed_def)
  have "expectimax g self c' = Some (ex_val (ex_tree k g self c'))"
    if "c' \<in> set (ex_children g c)" "\<not> ex_leaf g self c" for c'
    using ex_children_measure [OF n one that(2) Suc.prems(1) that(1)] Suc.prems(2)
    by (intro Suc.IH) auto
  then show ?case by (simp add: expectimax_unfold ex_tree_Suc map_opt_Some ex_val_node)
qed

section \<open>Partial correctness by fixpoint induction\<close>

text \<open>
  Whatever the search returns is a maximum or a mean of values it returned below, so
  it stays within the range of the evaluation function. \<open>expectimax.raw_induct\<close>
  needs no termination argument.
\<close>

lemma expectimax_within:
  assumes bounds: "\<And>s. lo \<le> evaluationFunction self s \<and> evaluationFunction self s \<le> hi"
    and ret: "expectimax g self c = Some v"
  shows "lo \<le> v \<and> v \<le> hi"
  using ret
proof (induction rule: expectimax_induct)
  case (leaf c)
  show ?case using bounds .
next
  case (node c vs)
  then have "vs \<noteq> []" "\<And>w. w \<in> set vs \<Longrightarrow> lo \<le> w \<and> w \<le> hi"
    and "length vs = length (ex_children g c)"
    by (auto dest: list_all2_in_set2 list_all2_lengthD)
  then show ?case
    using Max_list_bounds [of vs lo hi] average_bounds [of vs lo hi] by (cases c) (auto split: if_split_asm)
qed

section \<open>Depth 0: a search that never returns\<close>

text \<open>
  With the configured depth 0 the root calls \<open>Min_Value\<close> at depth 0, \<open>Max_Value\<close> is
  first reached at depth 1 and the depth only grows: the test \<open>depth == self.depth\<close>
  never holds. In a game where every agent always has a move a call returns only from
  within the configured depth, by induction over the calls of a search that returned.
\<close>

lemma expectimax_past_depth_None:
  assumes moves: "\<And>s i. getLegalActions g s i \<noteq> []"
    and ret: "expectimax g self c = Some v"
  shows "ex_ok (depth self) c"
  using ret
proof (induction rule: expectimax_induct)
  case (leaf c)
  then show ?case using moves by (cases c) auto
next
  case (node c vs)
  then have "\<exists>c'\<in>set (ex_children g c). ex_ok (depth self) c'"
    by (auto simp: neq_Nil_conv list_all2_Cons1)
  then show ?case using ex_ok_parent by blast
qed

section \<open>The root loop\<close>

lemma expectimax_root_legal:
  "expectimax_root g self s as m r = Some (Some a) \<Longrightarrow> a \<in> set as \<or> r = Some a"
  by (induction as arbitrary: m r) (fastforce split: Option.bind_splits if_splits)+

text \<open>
  What the root loop returns: the action it started with, when no action's value
  exceeds the starting value, or else the first action of greatest value.
\<close>

lemma expectimax_root_Some:
  "expectimax_root g self s as m r = Some res \<Longrightarrow>
   (res = r \<and> (\<forall>b\<in>set as. \<exists>w. Min_Value g self (generateSuccessor g s 0 b) 1 0 = Some w \<and> Fin w \<le> m)) \<or>
   (\<exists>pre a post v. as = pre @ a # post \<and> res = Some a \<and>
      Min_Value g self (generateSuccessor g s 0 a) 1 0 = Some v \<and> m < Fin v \<and>
      (\<forall>b\<in>set pre. \<exists>w. Min_Value g self (generateSuccessor g s 0 b) 1 0 = Some w \<and> w < v) \<and>
      (\<forall>b\<in>set post. \<exists>w. Min_Value g self (generateSuccessor g s 0 b) 1 0 = Some w \<and> w \<le> v))"
  by (rule argmax_loop_Some [where R = "expectimax_root g self s" and h = Fin]) simp_all

lemma expectimax_root_returns:
  "(\<And>a. a \<in> set as \<Longrightarrow> \<exists>v. Min_Value g self (generateSuccessor g s 0 a) 1 0 = Some v) \<Longrightarrow>
   \<exists>r. expectimax_root g self s as m r0 = Some r"
  by (induction as arbitrary: m r0) fastforce+

text \<open>
  With a configured depth of at most 0 the ghosts' searches below the root never reach
  a cut-off: in a game where every agent always has a move, \<open>getAction\<close> never returns.
\<close>

lemma ExpectimaxAgent_getAction_None:
  assumes "depth self \<le> 0" "\<And>s i. getLegalActions g s i \<noteq> []"
  shows "ExpectimaxAgent_getAction g self s = None"
proof -
  obtain a as where legal: "getLegalActions g s 0 = a # as"
    using assms(2) by (cases "getLegalActions g s 0") auto
  have "expectimax g self (MinValue (generateSuccessor g s 0 a) 1 0) = None"
  proof (cases "expectimax g self (MinValue (generateSuccessor g s 0 a) 1 0)")
    case (Some v)
    from expectimax_past_depth_None [OF assms(2) this] assms(1) show ?thesis by simp
  qed
  with legal show ?thesis by (simp add: ExpectimaxAgent_getAction_def Min_Value_def)
qed

section \<open>Properties\<close>

text \<open>
  C10: \<open>ExpectimaxAgent.getAction\<close> returns on every game with a fixed number of at
  least one agent and a positive configured depth.
\<close>

theorem ExpectimaxAgent_getAction_returns:
  assumes "agents_fixed g n" "1 \<le> n" "0 < depth self"
  shows "\<exists>r. ExpectimaxAgent_getAction g self s = Some r"
proof -
  have "\<exists>v. Min_Value g self (generateSuccessor g s 0 a) 1 0 = Some v" for a
  proof -
    let ?c = "MinValue (generateSuccessor g s 0 a) 1 0"
    have "expectimax g self ?c = Some (ex_val (ex_tree (Suc (ex_measure n (depth self) ?c)) g self ?c))"
      by (rule expectimax_ex_tree [OF assms(1,2)]) (use assms(3) in simp_all)
    then show ?thesis unfolding Min_Value_def by blast
  qed
  then show ?thesis unfolding ExpectimaxAgent_getAction_def by (intro expectimax_root_returns) blast
qed

theorem ExpectimaxAgent_getAction_returns_witness:
  "agents_fixed solo_game 1 \<and> (1::nat) \<le> 1 \<and> 0 < depth (tiny_agent 1) \<and>
   (\<exists>r. ExpectimaxAgent_getAction solo_game (tiny_agent 1) [] = Some r)"
proof -
  have h: "agents_fixed solo_game 1" "0 < depth (tiny_agent 1)"
    by (simp_all add: agents_fixed_def search_simps)
  show ?thesis using h ExpectimaxAgent_getAction_returns [OF h(1) order.refl h(2)] by blast
qed

text \<open>
  C11: Every value the expectimax search returns, from \<open>Max_Value\<close> or
  \<open>Min_Value\<close>, lies within the bounds of the evaluation function: maxima and
  means of evaluations never leave their range.
\<close>

theorem expectimax_value_within_evaluations:
  assumes "\<And>s. lo \<le> evaluationFunction self s \<and> evaluationFunction self s \<le> hi"
    and "expectimax g self c = Some v"
  shows "lo \<le> v \<and> v \<le> hi"
  using expectimax_within [OF assms] .

theorem expectimax_value_within_evaluations_witness:
  "(\<forall>s. 0 \<le> evaluationFunction (tiny_agent 1) s \<and> evaluationFunction (tiny_agent 1) s \<le> 12) \<and>
   expectimax tiny_game (tiny_agent 1) (MinValue [0] 1 0) = Some (15 / 2) \<and> (0::real) \<le> 15 / 2 \<and> (15 / 2::real) \<le> 12"
proof -
  have b: "\<And>s. 0 \<le> evaluationFunction (tiny_agent 1) s \<and> evaluationFunction (tiny_agent 1) s \<le> 12"
    by (simp add: tiny_agent_def tiny_eval_def)
  have r: "expectimax tiny_game (tiny_agent 1) (MinValue [0] 1 0) = Some (15 / 2)"
    by (simp add: expectimax.simps search_simps)
  show ?thesis using b r expectimax_value_within_evaluations [OF b r] by blast
qed

text \<open>
  C12: With the configured depth 0, in a game where every agent always has a move,
  \<open>ExpectimaxAgent.getAction\<close> never returns, whereas \<open>MinimaxAgent\<close> at depth 0
  compares the evaluations of the successors (C6).
\<close>

theorem ExpectimaxAgent_depth_zero_diverges:
  assumes "depth self = 0" "\<And>s i. getLegalActions g s i \<noteq> []"
  shows "ExpectimaxAgent_getAction g self s = None"
  using assms by (intro ExpectimaxAgent_getAction_None) simp_all

theorem ExpectimaxAgent_depth_zero_diverges_witness:
  "depth (tiny_agent 0) = 0 \<and> (\<forall>s i. getLegalActions solo_game s i \<noteq> []) \<and>
   ExpectimaxAgent_getAction solo_game (tiny_agent 0) [] = None"
proof -
  have h: "depth (tiny_agent 0) = 0" "\<And>s i. getLegalActions solo_game s i \<noteq> []"
    by (simp_all add: search_simps)
  show ?thesis using h ExpectimaxAgent_depth_zero_diverges [OF h] by blast
qed

text \<open>
  C26: When \<open>ExpectimaxAgent.getAction\<close> returns on a state where Pacman has a move,
  it returns a move, and the first one of greatest expectimax value: the loop starts
  at \<open>float('-inf')\<close>, below every value, and replaces the current move only on a
  strictly greater value.
\<close>

theorem ExpectimaxAgent_getAction_first_best:
  assumes "ExpectimaxAgent_getAction g self s = Some r" "getLegalActions g s 0 \<noteq> []"
  shows "\<exists>pre a post v. getLegalActions g s 0 = pre @ a # post \<and> r = Some a \<and>
           Min_Value g self (generateSuccessor g s 0 a) 1 0 = Some v \<and>
           (\<forall>b\<in>set pre. \<exists>w. Min_Value g self (generateSuccessor g s 0 b) 1 0 = Some w \<and> w < v) \<and>
           (\<forall>b\<in>set post. \<exists>w. Min_Value g self (generateSuccessor g s 0 b) 1 0 = Some w \<and> w \<le> v)"
proof -
  have "\<not> (\<forall>b\<in>set (getLegalActions g s 0). \<exists>w. Min_Value g self (generateSuccessor g s 0 b) 1 0 = Some w \<and> Fin w \<le> NegInf)"
    using assms(2) by (cases "getLegalActions g s 0") auto
  then show ?thesis
    using expectimax_root_Some [OF assms(1) [unfolded ExpectimaxAgent_getAction_def]] by blast
qed

theorem ExpectimaxAgent_getAction_first_best_witness:
  "ExpectimaxAgent_getAction tiny_game (tiny_agent 1) [] = Some (Some 0) \<and>
   (\<exists>v. Min_Value tiny_game (tiny_agent 1) [0] 1 0 = Some v)"
proof -
  have h: "ExpectimaxAgent_getAction tiny_game (tiny_agent 1) [] = Some (Some 0)"
    "getLegalActions tiny_game [] 0 \<noteq> []"
    by (simp_all add: ExpectimaxAgent_getAction_def Min_Value_def expectimax.simps search_simps)
  from ExpectimaxAgent_getAction_first_best [OF h] obtain pre a post v
    where "getLegalActions tiny_game [] 0 = pre @ a # post" "Some 0 = Some a"
      "Min_Value tiny_game (tiny_agent 1) (generateSuccessor tiny_game [] 0 a) 1 0 = Some v"
    using h(1) by auto
  then show ?thesis using h(1) by (auto simp: search_simps)
qed

end
