(* ===== verification/Evaluation.thy ===== *)
theory Evaluation
  imports Prelude ExampleGames
begin

text \<open>
  The evaluation functions of \<open>src/multiAgents.py\<close>: \<open>scoreEvaluationFunction\<close>,
  \<open>ReflexAgent.evaluationFunction\<close> (a state and an action, with the float infinities
  and a division that can raise) and \<open>betterEvaluationFunction\<close>, with the
  behaviour of the reflex evaluation on every branch and two properties of the
  ghost-hunting evaluation: the sign flip of its ghost-distance term and its use of
  the farthest pellet only.
\<close>

definition scoreEvaluationFunction :: "('s, 'a) game \<Rightarrow> 's \<Rightarrow> real" where
  "scoreEvaluationFunction g currentGameState = getScore g currentGameState"

section \<open>The reflex evaluation\<close>

text \<open>
  \<open>1.0 / distance\<close> for a distance that is a float: \<open>1.0 / inf\<close> is \<open>0.0\<close>, division
  by \<open>0.0\<close> raises \<open>ZeroDivisionError\<close>.
\<close>

fun py_recip :: "xreal \<Rightarrow> py_error + real" where
  "py_recip (Fin x) = (if x = 0 then Inl ZeroDivisionError else Inr (1 / x))"
| "py_recip PosInf = Inr 0"
| "py_recip NegInf = Inr 0"

text \<open>
  The nearest-food loop: \<open>distance\<close> starts at \<open>float('inf')\<close> and takes every
  strictly smaller Manhattan distance.
\<close>

definition nearest_food :: "pos \<Rightarrow> pos list \<Rightarrow> xreal" where
  "nearest_food newPos foodList =
     foldl (\<lambda>distance x. let tempDistance = manhattanDistance newPos x in
                         if Fin tempDistance < distance then Fin tempDistance else distance)
       PosInf foodList"

definition ReflexAgent_evaluationFunction :: "('s, 'a) game \<Rightarrow> 's \<Rightarrow> 'a \<Rightarrow> py_error + xreal" where
  "ReflexAgent_evaluationFunction g currentGameState action =
     (let successorGameState = generatePacmanSuccessor g currentGameState action;
          newPos = getPacmanPosition g successorGameState;
          foodList = getFood g successorGameState;
          newGhostStates = getGhostStates g successorGameState in
      if isWin g successorGameState then Inr PosInf
      else if list_ex (\<lambda>state. getPosition state = newPos \<and> scaredTimer state = 0) newGhostStates
      then Inr NegInf
      else case py_recip (nearest_food newPos foodList) of
             Inl e \<Rightarrow> Inl e
           | Inr r \<Rightarrow> Inr (Fin (r + getScore g successorGameState)))"

section \<open>The better evaluation\<close>

text \<open>
  \<open>betterEvaluationFunction\<close>: the lists \<open>foodDistance\<close> and \<open>ghostDistance\<close> start
  with a 0, so \<open>max(foodDistance)\<close> is defined; the reciprocal is of the farthest food.
  When the ghosts' scared timers sum to a positive number, being near the ghosts and
  eating the power pellets is rewarded, otherwise distance from the ghosts and the
  pellets left are.
\<close>

definition betterEvaluationFunction :: "('s, 'a) game \<Rightarrow> 's \<Rightarrow> real" where
  "betterEvaluationFunction g currentGameState =
     (let newPos = getPacmanPosition g currentGameState;
          foodList = getFood g currentGameState;
          newGhostStates = getGhostStates g currentGameState;
          newScaredTimes = map scaredTimer newGhostStates;
          foodDistance = 0 # map (manhattanDistance newPos) foodList;
          ghostPos = map getPosition newGhostStates;
          ghostDistance = 0 # map (manhattanDistance newPos) ghostPos;
          numberofPowerPellets = length (getCapsules g currentGameState);
          sumScaredTimes = sum_list newScaredTimes;
          sumGhostDistance = sum_list ghostDistance;
          reciprocalfoodDistance = (if sum_list foodDistance > 0 then 1 / Max (set foodDistance) else 0);
          score = getScore g currentGameState + reciprocalfoodDistance in
      if sumScaredTimes > 0
      then score + (of_int sumScaredTimes + (-1 * real numberofPowerPellets) + (-1 * sumGhostDistance))
      else score + (sumGhostDistance + real numberofPowerPellets))"

section \<open>Lemmas\<close>

text \<open>The nearest-food loop computes the minimum distance, \<open>inf\<close> for no food.\<close>

lemma nearest_food_Min:
  "nearest_food p fl = (if fl = [] then PosInf else Fin (Min (set (map (manhattanDistance p) fl))))"
proof -
  have step: "foldl (\<lambda>distance x. let t = manhattanDistance p x in if Fin t < distance then Fin t else distance) acc fl =
        foldl min acc (map (\<lambda>x. Fin (manhattanDistance p x)) fl)" for acc
    by (induction fl arbitrary: acc) (simp_all add: Let_def if_less_min)
  have fin: "foldl min (Fin a) (map (\<lambda>x. Fin (f x)) xs) = Fin (foldl min a (map f xs))" for a f xs
    by (induction xs arbitrary: a) (simp_all add: min_def)
  show ?thesis
  proof (cases fl)
    case Nil
    then show ?thesis by (simp add: nearest_food_def)
  next
    case (Cons x xs)
    then have "nearest_food p fl = Fin (foldl min (manhattanDistance p x) (map (manhattanDistance p) xs))"
      using step [of PosInf] fin by (simp add: nearest_food_def min_def)
    then show ?thesis using Cons by (simp add: foldl_min_Min)
  qed
qed

lemma Min_distance_zero_iff:
  assumes "fl \<noteq> []"
  shows "Min (manhattanDistance p ` set fl) = 0 \<longleftrightarrow> p \<in> set fl"
proof
  assume min0: "Min (manhattanDistance p ` set fl) = 0"
  have "Min (manhattanDistance p ` set fl) \<in> manhattanDistance p ` set fl"
    using assms by (intro Min_in) auto
  then obtain x where "x \<in> set fl" "manhattanDistance p x = 0" using min0 by auto
  then show "p \<in> set fl" by simp
next
  assume "p \<in> set fl"
  then have "Min (manhattanDistance p ` set fl) \<le> 0" by (auto simp: Min_le_iff)
  moreover have "0 \<le> Min (manhattanDistance p ` set fl)" using assms by (simp add: Min_ge_iff)
  ultimately show "Min (manhattanDistance p ` set fl) = 0" by simp
qed

section \<open>Properties\<close>

text \<open>
  C14: \<open>ReflexAgent.evaluationFunction\<close> on every branch: \<open>inf\<close> for a winning
  successor; otherwise \<open>-inf\<close> when a ghost that is not scared stands on Pacman's new
  position; otherwise the successor's score, plus the reciprocal of the distance to the
  nearest food when there is food, and \<open>ZeroDivisionError\<close> when Pacman stands on food.
\<close>

theorem ReflexAgent_evaluationFunction_cases:
  "ReflexAgent_evaluationFunction g s a =
     (let s' = generatePacmanSuccessor g s a; p = getPacmanPosition g s'; fl = getFood g s' in
      if isWin g s' then Inr PosInf
      else if (\<exists>st\<in>set (getGhostStates g s'). getPosition st = p \<and> scaredTimer st = 0) then Inr NegInf
      else if fl = [] then Inr (Fin (getScore g s'))
      else if p \<in> set fl then Inl ZeroDivisionError
      else Inr (Fin (1 / Min (set (map (manhattanDistance p) fl)) + getScore g s')))"
  by (auto simp: ReflexAgent_evaluationFunction_def Let_def list_ex_iff nearest_food_Min Min_distance_zero_iff)

text \<open>
  The scenario of the spec: one ghost two cells east of Pacman, not scared, one
  pellet one cell west. Moving west eats the last pellet and wins (\<open>inf\<close>); moving
  east scores the reciprocal of the distance 2 to the pellet plus the score -1, so the
  reflex evaluation prefers the move towards the food.
\<close>

theorem ReflexAgent_evaluationFunction_prefers_food:
  "ReflexAgent_evaluationFunction (line_game 0) ((2, 0), [(1, 0)], 0) (-1) = Inr PosInf \<and>
   ReflexAgent_evaluationFunction (line_game 0) ((2, 0), [(1, 0)], 0) 1 = Inr (Fin (- 1 / 2)) \<and>
   Fin (- 1 / 2) < PosInf"
  by (simp add: ReflexAgent_evaluationFunction_def generatePacmanSuccessor_def search_simps
      nearest_food_Min manhattanDistance_def)

text \<open>
  C16: The sign flip of \<open>betterEvaluationFunction\<close>: of two states that differ only in
  where the ghosts are, the one with the ghosts nearer to Pacman scores higher exactly
  when the ghosts' scared timers sum to a positive number.
\<close>

theorem betterEvaluationFunction_sign_flip:
  assumes same: "getPacmanPosition g s1 = getPacmanPosition g s2" "getFood g s1 = getFood g s2"
    "getCapsules g s1 = getCapsules g s2" "getScore g s1 = getScore g s2"
    "map scaredTimer (getGhostStates g s1) = map scaredTimer (getGhostStates g s2)"
    and closer: "sum_list (map (\<lambda>gh. manhattanDistance (getPacmanPosition g s1) (getPosition gh)) (getGhostStates g s1)) <
                 sum_list (map (\<lambda>gh. manhattanDistance (getPacmanPosition g s2) (getPosition gh)) (getGhostStates g s2))"
  shows "betterEvaluationFunction g s2 < betterEvaluationFunction g s1 \<longleftrightarrow>
         0 < sum_list (map scaredTimer (getGhostStates g s1))"
  using closer unfolding betterEvaluationFunction_def Let_def same
  by (simp add: comp_def)

theorem betterEvaluationFunction_sign_flip_witness:
  "getPacmanPosition (ghost_game 5) (1, 0) = getPacmanPosition (ghost_game 5) (3, 0) \<and>
   getFood (ghost_game 5) (1, 0) = getFood (ghost_game 5) (3, 0) \<and>
   getCapsules (ghost_game 5) (1, 0) = getCapsules (ghost_game 5) (3, 0) \<and>
   getScore (ghost_game 5) (1, 0) = getScore (ghost_game 5) (3, 0) \<and>
   map scaredTimer (getGhostStates (ghost_game 5) (1, 0)) = map scaredTimer (getGhostStates (ghost_game 5) (3, 0)) \<and>
   sum_list (map (\<lambda>gh. manhattanDistance (getPacmanPosition (ghost_game 5) (1, 0)) (getPosition gh)) (getGhostStates (ghost_game 5) (1, 0))) <
   sum_list (map (\<lambda>gh. manhattanDistance (getPacmanPosition (ghost_game 5) (3, 0)) (getPosition gh)) (getGhostStates (ghost_game 5) (3, 0))) \<and>
   betterEvaluationFunction (ghost_game 5) (3, 0) < betterEvaluationFunction (ghost_game 5) (1, 0)"
proof -
  have h: "getPacmanPosition (ghost_game 5) (1, 0) = getPacmanPosition (ghost_game 5) (3, 0)"
    "getFood (ghost_game 5) (1, 0) = getFood (ghost_game 5) (3, 0)"
    "getCapsules (ghost_game 5) (1, 0) = getCapsules (ghost_game 5) (3, 0)"
    "getScore (ghost_game 5) (1, 0) = getScore (ghost_game 5) (3, 0)"
    "map scaredTimer (getGhostStates (ghost_game 5) (1, 0)) = map scaredTimer (getGhostStates (ghost_game 5) (3, 0))"
    "sum_list (map (\<lambda>gh. manhattanDistance (getPacmanPosition (ghost_game 5) (1, 0)) (getPosition gh)) (getGhostStates (ghost_game 5) (1, 0))) <
     sum_list (map (\<lambda>gh. manhattanDistance (getPacmanPosition (ghost_game 5) (3, 0)) (getPosition gh)) (getGhostStates (ghost_game 5) (3, 0)))"
    by (simp_all add: search_simps manhattanDistance_def)
  have "0 < sum_list (map scaredTimer (getGhostStates (ghost_game 5) (1::real, 0::real)))"
    by (simp add: search_simps)
  then show ?thesis using h betterEvaluationFunction_sign_flip [OF h] by blast
qed

text \<open>
  C17: Only the farthest pellet counts in \<open>betterEvaluationFunction\<close> (the reciprocal
  of \<open>max(foodDistance)\<close>): adding a pellet no farther than one already on the board
  leaves the evaluation unchanged.
\<close>

theorem betterEvaluationFunction_farthest_food:
  assumes same: "getFood g s' = x # getFood g s" "getPacmanPosition g s' = getPacmanPosition g s"
    "getGhostStates g s' = getGhostStates g s" "getCapsules g s' = getCapsules g s" "getScore g s' = getScore g s"
    and far: "y \<in> set (getFood g s)"
      "manhattanDistance (getPacmanPosition g s) x \<le> manhattanDistance (getPacmanPosition g s) y"
  shows "betterEvaluationFunction g s' = betterEvaluationFunction g s"
proof -
  let ?p = "getPacmanPosition g s" let ?ds = "map (manhattanDistance ?p) (getFood g s)"
  let ?dx = "manhattanDistance ?p x"
  have dy: "manhattanDistance ?p y \<in> set ?ds" using far(1) by simp
  have nonneg: "\<And>d. d \<in> set ?ds \<Longrightarrow> 0 \<le> d" by auto
  have "Max (insert ?dx (set (0 # ?ds))) = Max (set (0 # ?ds))"
    using dy far(2) by (intro Max_insert_below) auto
  then have "Max (set (0 # ?dx # ?ds)) = Max (set (0 # ?ds))" by (simp add: insert_commute)
  moreover have "0 < sum_list (0 # ?dx # ?ds) \<longleftrightarrow> 0 < sum_list (0 # ?ds)"
  proof -
    have a: "manhattanDistance ?p y \<le> sum_list ?ds" using dy nonneg by (rule member_le_sum_list)
    have b: "0 \<le> sum_list ?ds" using nonneg by (rule sum_list_nonneg)
    have c: "0 \<le> ?dx" by (rule manhattanDistance_nonneg)
    have "0 < ?dx + sum_list ?ds \<longleftrightarrow> 0 < sum_list ?ds"
      using a b c far(2) by linarith
    then show ?thesis by simp
  qed
  ultimately show ?thesis unfolding betterEvaluationFunction_def Let_def same by simp
qed

theorem betterEvaluationFunction_farthest_food_witness:
  "getFood food_game [(1, 0), (3, 0)] = (1, 0) # getFood food_game [(3, 0)] \<and>
   getPacmanPosition food_game [(1, 0), (3, 0)] = getPacmanPosition food_game [(3, 0)] \<and>
   getGhostStates food_game [(1, 0), (3, 0)] = getGhostStates food_game [(3, 0)] \<and>
   getCapsules food_game [(1, 0), (3, 0)] = getCapsules food_game [(3, 0)] \<and>
   getScore food_game [(1, 0), (3, 0)] = getScore food_game [(3, 0)] \<and>
   (3, 0) \<in> set (getFood food_game [(3, 0)]) \<and>
   manhattanDistance (getPacmanPosition food_game [(3, 0)]) (1, 0) \<le> manhattanDistance (getPacmanPosition food_game [(3, 0)]) (3, 0) \<and>
   betterEvaluationFunction food_game [(1, 0), (3, 0)] = betterEvaluationFunction food_game [(3, 0)]"
proof -
  have h: "getFood food_game [(1, 0), (3, 0)] = (1, 0) # getFood food_game [(3::real, 0::real)]"
    "getPacmanPosition food_game [(1, 0), (3, 0)] = getPacmanPosition food_game [(3, 0)]"
    "getGhostStates food_game [(1, 0), (3, 0)] = getGhostStates food_game [(3, 0)]"
    "getCapsules food_game [(1, 0), (3, 0)] = getCapsules food_game [(3, 0)]"
    "getScore food_game [(1, 0), (3, 0)] = getScore food_game [(3, 0)]"
    "(3, 0) \<in> set (getFood food_game [(3, 0)])"
    "manhattanDistance (getPacmanPosition food_game [(3, 0)]) (1, 0) \<le> manhattanDistance (getPacmanPosition food_game [(3, 0)]) (3, 0)"
    by (simp_all add: search_simps manhattanDistance_def)
  show ?thesis using h betterEvaluationFunction_farthest_food [OF h] by blast
qed

end
