(* ===== verification/ReflexAgent.thy ===== *)
theory ReflexAgent
  imports Evaluation
begin

text \<open>
  \<open>ReflexAgent.getAction\<close>: every legal move of Pacman is rated by
  \<open>ReflexAgent.evaluationFunction\<close>, and \<open>random.choice\<close> picks one of the moves of the
  best rating. The model returns the list of candidate moves \<open>random.choice\<close> picks
  from (each with the same probability), or the exception the method raises.
\<close>

definition ReflexAgent_bestIndices :: "('s, 'a) game \<Rightarrow> 's \<Rightarrow> py_error + nat list" where
  "ReflexAgent_bestIndices g gameState =
     (let legalMoves = getLegalActions g gameState 0 in
      case map_err (ReflexAgent_evaluationFunction g gameState) legalMoves of
        Inl e \<Rightarrow> Inl e
      | Inr scores \<Rightarrow>
          if scores = [] then Inl ValueError
          else let bestScore = Max (set scores) in
            Inr (filter (\<lambda>index. scores ! index = bestScore) [0..<length scores]))"

definition ReflexAgent_getAction :: "('s, 'a) game \<Rightarrow> 's \<Rightarrow> py_error + 'a list" where
  "ReflexAgent_getAction g gameState =
     (case ReflexAgent_bestIndices g gameState of
        Inl e \<Rightarrow> Inl e
      | Inr bestIndices \<Rightarrow> Inr (map (\<lambda>chosenIndex. getLegalActions g gameState 0 ! chosenIndex) bestIndices))"

section \<open>Lemmas\<close>

lemma ReflexAgent_getAction_legal:
  "ReflexAgent_getAction g s = Inr cs \<Longrightarrow> set cs \<subseteq> set (getLegalActions g s 0)"
  by (auto simp: ReflexAgent_getAction_def ReflexAgent_bestIndices_def Let_def map_err_Inr_iff
      list_all2_lengthD split: sum.splits if_splits)

lemma best_indices_set:
  assumes "list_all2 (\<lambda>x v. f x = Inr v) ls vs" "vs \<noteq> []"
  shows "set (map (\<lambda>i. ls ! i) (filter (\<lambda>i. vs ! i = Max (set vs)) [0..<length vs])) =
         {a \<in> set ls. \<exists>v. f a = Inr v \<and> (\<forall>b\<in>set ls. \<exists>w. f b = Inr w \<and> w \<le> v)}"
proof -
  have len: "length ls = length vs" and nth: "\<And>i. i < length vs \<Longrightarrow> f (ls ! i) = Inr (vs ! i)"
    using assms(1) by (auto simp: list_all2_conv_all_nth)
  have all: "\<forall>b\<in>set ls. \<exists>w. f b = Inr w \<and> w \<le> Max (set vs)"
    using nth len by (auto simp: in_set_conv_nth) (metis Max_ge finite_set nth_mem)
  show ?thesis
  proof (intro set_eqI iffI)
    fix a assume "a \<in> set (map (\<lambda>i. ls ! i) (filter (\<lambda>i. vs ! i = Max (set vs)) [0..<length vs]))"
    then obtain i where "i < length vs" "vs ! i = Max (set vs)" "a = ls ! i" by auto
    then show "a \<in> {a \<in> set ls. \<exists>v. f a = Inr v \<and> (\<forall>b\<in>set ls. \<exists>w. f b = Inr w \<and> w \<le> v)}"
      using nth len all by auto
  next
    fix a assume "a \<in> {a \<in> set ls. \<exists>v. f a = Inr v \<and> (\<forall>b\<in>set ls. \<exists>w. f b = Inr w \<and> w \<le> v)}"
    then obtain j v where j: "j < length vs" "a = ls ! j" and v: "f a = Inr v"
      and ge: "\<forall>b\<in>set ls. \<exists>w. f b = Inr w \<and> w \<le> v"
      using len by (auto simp: in_set_conv_nth)
    have vj: "v = vs ! j" using nth [OF j(1)] v j(2) by simp
    have "Max (set vs) \<in> set vs" using assms(2) by simp
    then obtain k where k: "k < length vs" "vs ! k = Max (set vs)" by (auto simp: in_set_conv_nth)
    have "ls ! k \<in> set ls" using k(1) len by simp
    then have "Max (set vs) \<le> v" using ge nth [OF k(1)] k(2) by fastforce
    moreover have "v \<le> Max (set vs)" using vj j(1) by (simp add: Max_ge)
    ultimately have "vs ! j = Max (set vs)" using vj by (simp add: antisym)
    then show "a \<in> set (map (\<lambda>i. ls ! i) (filter (\<lambda>i. vs ! i = Max (set vs)) [0..<length vs]))"
      using j by auto
  qed
qed

text \<open>The only exception the reflex evaluation raises is the division by zero.\<close>

lemma ReflexAgent_evaluationFunction_Inl:
  "ReflexAgent_evaluationFunction g s a = Inl e \<Longrightarrow> e = ZeroDivisionError"
  unfolding ReflexAgent_evaluationFunction_def Let_def
  by (auto split: if_splits sum.splits elim: py_recip.elims)

text \<open>
  The two infinite ratings: \<open>inf\<close> exactly for a winning successor, \<open>-inf\<close> exactly
  for a collision with a ghost that is not scared in a successor that is not won.
\<close>

lemma ReflexAgent_evaluationFunction_PosInf:
  "ReflexAgent_evaluationFunction g s a = Inr PosInf \<longleftrightarrow> isWin g (generatePacmanSuccessor g s a)"
  unfolding ReflexAgent_evaluationFunction_def Let_def
  by (auto split: sum.splits elim: py_recip.elims)

lemma ReflexAgent_evaluationFunction_NegInf:
  "ReflexAgent_evaluationFunction g s a = Inr NegInf \<longleftrightarrow>
     \<not> isWin g (generatePacmanSuccessor g s a) \<and>
     (\<exists>st\<in>set (getGhostStates g (generatePacmanSuccessor g s a)).
        getPosition st = getPacmanPosition g (generatePacmanSuccessor g s a) \<and> scaredTimer st = 0)"
  unfolding ReflexAgent_evaluationFunction_def Let_def
  by (auto simp: list_ex_iff split: sum.splits elim: py_recip.elims)

text \<open>When \<open>getAction\<close> returns, every legal move was rated, and the candidates are the best.\<close>

lemma ReflexAgent_getAction_Inr:
  assumes "ReflexAgent_getAction g s = Inr cs"
  shows "(\<forall>b\<in>set (getLegalActions g s 0). \<exists>w. ReflexAgent_evaluationFunction g s b = Inr w) \<and>
         set cs = {a \<in> set (getLegalActions g s 0). \<exists>v. ReflexAgent_evaluationFunction g s a = Inr v \<and>
            (\<forall>b\<in>set (getLegalActions g s 0). \<exists>w. ReflexAgent_evaluationFunction g s b = Inr w \<and> w \<le> v)}"
proof -
  obtain vs where vs: "map_err (ReflexAgent_evaluationFunction g s) (getLegalActions g s 0) = Inr vs"
    and ne: "vs \<noteq> []"
    and cs: "cs = map (\<lambda>i. getLegalActions g s 0 ! i) (filter (\<lambda>i. vs ! i = Max (set vs)) [0..<length vs])"
    using assms by (auto simp: ReflexAgent_getAction_def ReflexAgent_bestIndices_def Let_def
        split: sum.splits if_splits)
  have la: "list_all2 (\<lambda>x v. ReflexAgent_evaluationFunction g s x = Inr v) (getLegalActions g s 0) vs"
    using vs by (simp add: map_err_Inr_iff)
  have "\<forall>b\<in>set (getLegalActions g s 0). \<exists>w. ReflexAgent_evaluationFunction g s b = Inr w"
    using map_err_InrD [OF vs] by blast
  then show ?thesis using best_indices_set [OF la ne] cs by simp
qed

section \<open>Properties\<close>

text \<open>
  C18: When \<open>ReflexAgent.getAction\<close> returns, it chooses among a non-empty list of
  candidates, and the candidates are exactly the legal moves whose evaluation is at least
  the evaluation of every legal move.
\<close>

theorem ReflexAgent_getAction_best:
  assumes "ReflexAgent_getAction g s = Inr cs"
  shows "cs \<noteq> [] \<and> set cs = {a \<in> set (getLegalActions g s 0). \<exists>v. ReflexAgent_evaluationFunction g s a = Inr v \<and>
            (\<forall>b\<in>set (getLegalActions g s 0). \<exists>w. ReflexAgent_evaluationFunction g s b = Inr w \<and> w \<le> v)}"
proof -
  obtain vs where vs: "map_err (ReflexAgent_evaluationFunction g s) (getLegalActions g s 0) = Inr vs"
    and ne: "vs \<noteq> []"
    and cs: "cs = map (\<lambda>i. getLegalActions g s 0 ! i) (filter (\<lambda>i. vs ! i = Max (set vs)) [0..<length vs])"
    using assms by (auto simp: ReflexAgent_getAction_def ReflexAgent_bestIndices_def Let_def
        split: sum.splits if_splits)
  have la: "list_all2 (\<lambda>x v. ReflexAgent_evaluationFunction g s x = Inr v) (getLegalActions g s 0) vs"
    using vs by (simp add: map_err_Inr_iff)
  have "Max (set vs) \<in> set vs" using ne by simp
  then have "cs \<noteq> []" using cs by (auto simp: in_set_conv_nth filter_empty_conv)
  then show ?thesis using best_indices_set [OF la ne] cs by simp
qed

theorem ReflexAgent_getAction_best_witness:
  "ReflexAgent_getAction (line_game 0) ((2, 0), [(1, 0)], 0) = Inr [-1] \<and>
   set [-1] \<subseteq> set (getLegalActions (line_game 0) ((2, 0), [(1, 0)], 0) 0)"
proof -
  have "ReflexAgent_getAction (line_game 0) ((2, 0), [(1, 0)], 0) = Inr [-1]"
    by (simp add: ReflexAgent_getAction_def ReflexAgent_bestIndices_def ReflexAgent_evaluationFunction_def
        generatePacmanSuccessor_def search_simps nearest_food_Min manhattanDistance_def)
  moreover note ReflexAgent_getAction_best [OF this]
  ultimately show ?thesis by blast
qed

text \<open>
  C19: Without a legal move \<open>max(scores)\<close> raises \<open>ValueError\<close>.
\<close>

theorem ReflexAgent_getAction_no_moves:
  "getLegalActions g s 0 = [] \<Longrightarrow> ReflexAgent_getAction g s = Inl ValueError"
  by (simp add: ReflexAgent_getAction_def ReflexAgent_bestIndices_def)

theorem ReflexAgent_getAction_no_moves_witness:
  "getLegalActions (ghost_game 0) (1, 0) 0 = [] \<and> ReflexAgent_getAction (ghost_game 0) (1, 0) = Inl ValueError"
proof -
  have h: "getLegalActions (ghost_game 0) (1::real, 0::real) 0 = []" by (simp add: search_simps)
  show ?thesis using h ReflexAgent_getAction_no_moves [OF h] by blast
qed

text \<open>
  C20: One legal move whose evaluation divides by zero makes \<open>ReflexAgent.getAction\<close>
  raise \<open>ZeroDivisionError\<close>, whatever the other moves are worth.
\<close>

theorem ReflexAgent_getAction_raises:
  assumes "a \<in> set (getLegalActions g s 0)" "ReflexAgent_evaluationFunction g s a = Inl e"
  shows "ReflexAgent_getAction g s = Inl ZeroDivisionError"
proof -
  obtain e' where e': "map_err (ReflexAgent_evaluationFunction g s) (getLegalActions g s 0) = Inl e'"
    using map_err_Inl [of a _ "ReflexAgent_evaluationFunction g s", OF assms] by blast
  then have "e' = ZeroDivisionError"
    using map_err_InlD ReflexAgent_evaluationFunction_Inl by fast
  then show ?thesis using e' by (simp add: ReflexAgent_getAction_def ReflexAgent_bestIndices_def)
qed

theorem ReflexAgent_getAction_raises_witness:
  "(1::int) \<in> set (getLegalActions (ghost_game 0\<lparr>getFood := \<lambda>s. [(0, 0)], getLegalActions := \<lambda>s i. [-1, 1]\<rparr>) (3, 0) 0) \<and>
   ReflexAgent_evaluationFunction (ghost_game 0\<lparr>getFood := \<lambda>s. [(0, 0)], getLegalActions := \<lambda>s i. [-1, 1]\<rparr>) (3, 0) 1 = Inl ZeroDivisionError \<and>
   ReflexAgent_getAction (ghost_game 0\<lparr>getFood := \<lambda>s. [(0, 0)], getLegalActions := \<lambda>s i. [-1, 1]\<rparr>) (3, 0) = Inl ZeroDivisionError"
proof -
  let ?g = "ghost_game 0\<lparr>getFood := \<lambda>s. [(0::real, 0::real)], getLegalActions := \<lambda>s i. [-1, 1::int]\<rparr>"
  have h: "(1::int) \<in> set (getLegalActions ?g (3, 0) 0)"
    "ReflexAgent_evaluationFunction ?g (3, 0) 1 = Inl ZeroDivisionError"
    by (simp_all add: ReflexAgent_evaluationFunction_def generatePacmanSuccessor_def search_simps
        nearest_food_Min manhattanDistance_def)
  show ?thesis using h ReflexAgent_getAction_raises [OF h] by blast
qed

text \<open>
  C30: The reflex agent never misses a win: when some legal move wins, its candidates
  are exactly the winning moves.
\<close>

theorem ReflexAgent_getAction_takes_win:
  assumes "a \<in> set (getLegalActions g s 0)" "isWin g (generatePacmanSuccessor g s a)"
    "ReflexAgent_getAction g s = Inr cs"
  shows "set cs = {b \<in> set (getLegalActions g s 0). isWin g (generatePacmanSuccessor g s b)}"
proof -
  note r = ReflexAgent_getAction_Inr [OF assms(3)]
  note all = conjunct1 [OF r] and cs = conjunct2 [OF r]
  have a: "ReflexAgent_evaluationFunction g s a = Inr PosInf"
    by (rule ReflexAgent_evaluationFunction_PosInf [THEN iffD2, OF assms(2)])
  show ?thesis
  proof (intro set_eqI iffI)
    fix b assume "b \<in> set cs"
    then obtain v where b: "b \<in> set (getLegalActions g s 0)" "ReflexAgent_evaluationFunction g s b = Inr v"
      and ge: "\<forall>c\<in>set (getLegalActions g s 0). \<exists>w. ReflexAgent_evaluationFunction g s c = Inr w \<and> w \<le> v"
      using \<open>b \<in> set cs\<close> unfolding cs by blast
    from bspec [OF ge assms(1)] a have "PosInf \<le> v" by auto
    then have "v = PosInf" by (cases v) simp_all
    with b(2) have "isWin g (generatePacmanSuccessor g s b)"
      by (intro ReflexAgent_evaluationFunction_PosInf [THEN iffD1]) simp
    with b(1) show "b \<in> {b \<in> set (getLegalActions g s 0). isWin g (generatePacmanSuccessor g s b)}"
      by simp
  next
    fix b assume b: "b \<in> {b \<in> set (getLegalActions g s 0). isWin g (generatePacmanSuccessor g s b)}"
    then have "ReflexAgent_evaluationFunction g s b = Inr PosInf"
      by (intro ReflexAgent_evaluationFunction_PosInf [THEN iffD2]) simp
    moreover have "\<forall>c\<in>set (getLegalActions g s 0). \<exists>w. ReflexAgent_evaluationFunction g s c = Inr w \<and> w \<le> PosInf"
      using all by simp
    ultimately show "b \<in> set cs" using b unfolding cs by blast
  qed
qed

theorem ReflexAgent_getAction_takes_win_witness:
  "ReflexAgent_getAction (line_game 0) ((2, 0), [(1, 0)], 0) = Inr [-1] \<and>
   set [-1] = {b \<in> set [-1, 1::int]. isWin (line_game 0) (generatePacmanSuccessor (line_game 0) ((2, 0), [(1, 0)], 0) b)}"
proof -
  have h: "(-1::int) \<in> set (getLegalActions (line_game 0) ((2, 0), [(1, 0)], 0) 0)"
    "isWin (line_game 0) (generatePacmanSuccessor (line_game 0) ((2, 0), [(1, 0)], 0) (-1))"
    "ReflexAgent_getAction (line_game 0) ((2, 0), [(1, 0)], 0) = Inr [-1]"
    by (simp_all add: ReflexAgent_getAction_def ReflexAgent_bestIndices_def ReflexAgent_evaluationFunction_def
        generatePacmanSuccessor_def search_simps nearest_food_Min manhattanDistance_def)
  show ?thesis using ReflexAgent_getAction_takes_win [OF h] h(3) by (simp add: search_simps)
qed

text \<open>
  C31: The reflex agent never walks into a ghost that is not scared when it has a move
  that does not: then no candidate leads to such a collision without winning.
\<close>

theorem ReflexAgent_getAction_avoids_ghosts:
  assumes "a \<in> set (getLegalActions g s 0)"
    "ReflexAgent_evaluationFunction g s a \<noteq> Inr NegInf" "ReflexAgent_getAction g s = Inr cs"
    "b \<in> set cs"
  shows "isWin g (generatePacmanSuccessor g s b) \<or>
         (\<forall>st\<in>set (getGhostStates g (generatePacmanSuccessor g s b)).
            getPosition st \<noteq> getPacmanPosition g (generatePacmanSuccessor g s b) \<or> scaredTimer st \<noteq> 0)"
proof -
  note r = ReflexAgent_getAction_Inr [OF assms(3)]
  note all = conjunct1 [OF r] and cs = conjunct2 [OF r]
  obtain w where w: "ReflexAgent_evaluationFunction g s a = Inr w"
    using all assms(1) by blast
  with assms(2) have wn: "w \<noteq> NegInf" by blast
  obtain v where v: "ReflexAgent_evaluationFunction g s b = Inr v"
    and ge: "\<forall>c\<in>set (getLegalActions g s 0). \<exists>w. ReflexAgent_evaluationFunction g s c = Inr w \<and> w \<le> v"
    using assms(4) unfolding cs by blast
  from bspec [OF ge assms(1)] w have "w \<le> v" by auto
  then have "v \<noteq> NegInf" using wn by (cases w; cases v) simp_all
  then have "ReflexAgent_evaluationFunction g s b \<noteq> Inr NegInf" using v by simp
  then have "\<not> (\<not> isWin g (generatePacmanSuccessor g s b) \<and>
     (\<exists>st\<in>set (getGhostStates g (generatePacmanSuccessor g s b)).
        getPosition st = getPacmanPosition g (generatePacmanSuccessor g s b) \<and> scaredTimer st = 0))"
    by (simp only: ReflexAgent_evaluationFunction_NegInf [symmetric] not_False_eq_True)
  then show ?thesis by blast
qed

theorem ReflexAgent_getAction_avoids_ghosts_witness:
  "ReflexAgent_getAction (line_game 0) ((3, 0), [(1, 0), (9, 0)], 0) = Inr [-1] \<and>
   \<not> isWin (line_game 0) (generatePacmanSuccessor (line_game 0) ((3, 0), [(1, 0), (9, 0)], 0) (-1))"
proof -
  have h: "(-1::int) \<in> set (getLegalActions (line_game 0) ((3, 0), [(1, 0), (9, 0)], 0) 0)"
    "ReflexAgent_evaluationFunction (line_game 0) ((3, 0), [(1, 0), (9, 0)], 0) (-1) \<noteq> Inr NegInf"
    "ReflexAgent_getAction (line_game 0) ((3, 0), [(1, 0), (9, 0)], 0) = Inr [-1]"
    "(-1::int) \<in> set [-1]"
    by (simp_all add: ReflexAgent_getAction_def ReflexAgent_bestIndices_def ReflexAgent_evaluationFunction_def
        generatePacmanSuccessor_def search_simps nearest_food_Min manhattanDistance_def)
  have "\<not> isWin (line_game 0) (generatePacmanSuccessor (line_game 0) ((3, 0), [(1, 0), (9, 0)], 0) (-1))"
    by (simp add: generatePacmanSuccessor_def search_simps)
  then show ?thesis using ReflexAgent_getAction_avoids_ghosts [OF h] h(3) by simp
qed

end
