(* ===== verification/Config.thy ===== *)
theory Config
  imports Evaluation ExampleGames
begin

text \<open>
  The configuration of the search agents, \<open>MultiAgentSearchAgent.__init__\<close>: the name
  of the evaluation function is resolved by \<open>util.lookup\<close> in the module's globals,
  and the depth string is converted by Python's \<open>int\<close>. The globals are every name
  the module binds (its imports, classes, functions and \<open>better\<close>) and the attributes
  Python 3 gives every module; only three of them are evaluation functions of a game
  state. \<open>__init__\<close> stores whatever object the lookup finds, so its result is the
  record of the attributes it sets (\<open>agent_attrs\<close>); \<open>configured_agent\<close> is the
  search agent those attributes make when the object is an evaluation function. The
  conversion \<open>int\<close> is modelled for base-10 strings of ASCII digits, with the sign, the
  surrounding whitespace and the underscores between digits that it accepts.
\<close>

section \<open>Python's \<open>int\<close> and \<open>str\<close> on decimal strings\<close>

definition is_py_space :: "char \<Rightarrow> bool" where
  "is_py_space c \<longleftrightarrow> of_char c \<in> {9, 10, 11, 12, 13, 28, 29, 30, 31, 32 :: nat}"

definition is_digit :: "char \<Rightarrow> bool" where
  "is_digit c \<longleftrightarrow> 48 \<le> (of_char c :: nat) \<and> (of_char c :: nat) \<le> 57"

definition digit_val :: "char \<Rightarrow> nat" where
  "digit_val c = of_char c - 48"

text \<open>Digits, with single underscores between them; the flag records a preceding digit.\<close>

fun py_digits_acc :: "nat \<Rightarrow> bool \<Rightarrow> string \<Rightarrow> nat option" where
  "py_digits_acc n p [] = (if p then Some n else None)"
| "py_digits_acc n p (c # cs) =
     (if is_digit c then py_digits_acc (10 * n + digit_val c) True cs
      else if c = CHR ''_'' \<and> p then py_digits_acc n False cs
      else None)"

definition py_digits :: "string \<Rightarrow> py_error + nat" where
  "py_digits s = (case py_digits_acc 0 False s of None \<Rightarrow> Inl ValueError | Some n \<Rightarrow> Inr n)"

definition py_strip :: "string \<Rightarrow> string" where
  "py_strip s = rev (dropWhile is_py_space (rev (dropWhile is_py_space s)))"

definition py_int :: "string \<Rightarrow> py_error + int" where
  "py_int s = (let t = py_strip s in
     case t of
       [] \<Rightarrow> Inl ValueError
     | c # cs \<Rightarrow>
         if c = CHR ''-'' then map_sum id (\<lambda>n. - int n) (py_digits cs)
         else if c = CHR ''+'' then map_sum id int (py_digits cs)
         else map_sum id int (py_digits t))"

section \<open>\<open>util.lookup\<close> and \<open>MultiAgentSearchAgent.__init__\<close>\<close>

definition lookup :: "string \<Rightarrow> (string \<times> 'v) list \<Rightarrow> py_error + 'v" where
  "lookup name namespace =
     (case [obj. (n, obj) \<leftarrow> namespace, n = name] of
        [] \<Rightarrow> Inl NotFoundException
      | [obj] \<Rightarrow> Inr obj
      | _ \<Rightarrow> Inl NameConflictException)"

text \<open>
  The objects of the module's namespace: an evaluation function of a game state, or any
  other object (a module, a class, a function of other arguments, a module attribute),
  named by its kind.
\<close>

datatype 's py_global = PyEvalFn "'s \<Rightarrow> real" | PyOther string

definition multiAgents_globals :: "('s, 'a) game \<Rightarrow> (string \<times> 's py_global) list" where
  "multiAgents_globals g =
     [(''__name__'', PyOther ''str''), (''__doc__'', PyOther ''NoneType''),
      (''__package__'', PyOther ''str''), (''__loader__'', PyOther ''SourceFileLoader''),
      (''__spec__'', PyOther ''ModuleSpec''), (''__file__'', PyOther ''str''),
      (''__cached__'', PyOther ''str''), (''__builtins__'', PyOther ''dict''),
      (''manhattanDistance'', PyOther ''function of two positions''),
      (''Directions'', PyOther ''class''), (''random'', PyOther ''module''),
      (''util'', PyOther ''module''), (''Agent'', PyOther ''class''),
      (''ReflexAgent'', PyOther ''class''),
      (''scoreEvaluationFunction'', PyEvalFn (scoreEvaluationFunction g)),
      (''MultiAgentSearchAgent'', PyOther ''class''), (''MinimaxAgent'', PyOther ''class''),
      (''AlphaBetaAgent'', PyOther ''class''), (''ExpectimaxAgent'', PyOther ''class''),
      (''betterEvaluationFunction'', PyEvalFn (betterEvaluationFunction g)),
      (''better'', PyEvalFn (betterEvaluationFunction g))]"

text \<open>The attributes \<open>__init__\<close> sets: \<open>self.index\<close>, \<open>self.evaluationFunction\<close>, \<open>self.depth\<close>.\<close>

record 's agent_attrs =
  attr_index :: nat
  attr_evaluationFunction :: "'s py_global"
  attr_depth :: int

definition MultiAgentSearchAgent_init :: "('s, 'a) game \<Rightarrow> string \<Rightarrow> string \<Rightarrow> py_error + 's agent_attrs" where
  "MultiAgentSearchAgent_init g evalFn depthStr =
     (case lookup evalFn (multiAgents_globals g) of
        Inl e \<Rightarrow> Inl e
      | Inr f \<Rightarrow> (case py_int depthStr of
          Inl e \<Rightarrow> Inl e
        | Inr d \<Rightarrow> Inr \<lparr>attr_index = 0, attr_evaluationFunction = f, attr_depth = d\<rparr>))"

definition configured_agent :: "'s agent_attrs \<Rightarrow> 's search_agent option" where
  "configured_agent a = (case attr_evaluationFunction a of
     PyEvalFn f \<Rightarrow> Some \<lparr>index = attr_index a, evaluationFunction = f, depth = attr_depth a\<rparr>
   | PyOther kind \<Rightarrow> None)"

section \<open>Lemmas\<close>

text \<open>In a namespace without repeated names, \<open>util.lookup\<close> is the map lookup.\<close>

lemma lookup_map_of:
  "distinct (map fst ns) \<Longrightarrow>
   lookup n ns = (case map_of ns n of None \<Rightarrow> Inl NotFoundException | Some v \<Rightarrow> Inr v)"
proof -
  assume "distinct (map fst ns)"
  then have "[obj. (n', obj) \<leftarrow> ns, n' = n] = (case map_of ns n of None \<Rightarrow> [] | Some v \<Rightarrow> [v])"
    by (induction ns) (auto split: option.splits dest: map_of_SomeD, force+)
  then show ?thesis by (simp add: lookup_def split: option.splits)
qed

lemma multiAgents_globals_distinct: "distinct (map fst (multiAgents_globals g))"
  by (simp add: multiAgents_globals_def)

lemma lookup_globals:
  "lookup n (multiAgents_globals g) =
     (case map_of (multiAgents_globals g) n of None \<Rightarrow> Inl NotFoundException | Some v \<Rightarrow> Inr v)"
  by (rule lookup_map_of [OF multiAgents_globals_distinct])


lemma MultiAgentSearchAgent_init_depth:
  "MultiAgentSearchAgent_init g evalFn depthStr = Inr a \<Longrightarrow> py_int depthStr = Inr d \<Longrightarrow> attr_depth a = d"
  by (auto simp: MultiAgentSearchAgent_init_def split: sum.splits)

lemma configured_agent_depth: "configured_agent a = Some self \<Longrightarrow> depth self = attr_depth a"
  by (auto simp: configured_agent_def split: py_global.splits)

section \<open>Properties\<close>

text \<open>
  C21: \<open>MultiAgentSearchAgent(evalFn, depth)\<close> for each of the names the module
  binds to its evaluation functions, and a depth string that \<open>int\<close> reads as
  \<open>d\<close>: the agent searches from Pacman's index 0, with the named function, to depth
  \<open>d\<close>.
\<close>

theorem MultiAgentSearchAgent_init_configures:
  assumes "py_int depthStr = Inr d"
  shows "(\<exists>a. MultiAgentSearchAgent_init g ''scoreEvaluationFunction'' depthStr = Inr a \<and>
              configured_agent a = Some \<lparr>index = 0, evaluationFunction = scoreEvaluationFunction g, depth = d\<rparr>) \<and>
         (\<exists>a. MultiAgentSearchAgent_init g ''betterEvaluationFunction'' depthStr = Inr a \<and>
              configured_agent a = Some \<lparr>index = 0, evaluationFunction = betterEvaluationFunction g, depth = d\<rparr>) \<and>
         (\<exists>a. MultiAgentSearchAgent_init g ''better'' depthStr = Inr a \<and>
              configured_agent a = Some \<lparr>index = 0, evaluationFunction = betterEvaluationFunction g, depth = d\<rparr>)"
  using assms unfolding MultiAgentSearchAgent_init_def lookup_globals
  by (simp add: configured_agent_def multiAgents_globals_def)

theorem MultiAgentSearchAgent_init_configures_witness:
  "py_int '' -0_3 '' = Inr (-3) \<and>
   (\<exists>a. MultiAgentSearchAgent_init tiny_game ''better'' '' -0_3 '' = Inr a \<and>
        configured_agent a = Some \<lparr>index = 0, evaluationFunction = betterEvaluationFunction tiny_game, depth = -3\<rparr>)"
proof -
  have h: "py_int '' -0_3 '' = Inr (-3)"
    by (simp add: py_int_def py_strip_def py_digits_def is_py_space_def is_digit_def digit_val_def)
  show ?thesis using h MultiAgentSearchAgent_init_configures [OF h, of tiny_game] by blast
qed



end
