(* ===== verification/SearchCalls.thy ===== *)
theory SearchCalls
  imports Minimax
begin

text \<open>
  The calls of the nested search of \<open>MinimaxAgent.getAction\<close> (the relation
  \<open>search_step\<close> of \<open>CallGraph\<close>) followed from the root loop: the calls reachable
  from the root keep the ply and the agent index in range, along every chain the number
  of moves left drops by one per call, a search that returns has made every call the
  relation allows, and the agents move in turn.
\<close>

lemma search_steps_inv:
  assumes "(search_step g self)\<^sup>*\<^sup>* c c'" "agents_fixed g n" "2 \<le> n" "search_inv n (depth self) c"
  shows "search_inv n (depth self) c'"
  using assms(1,4) by (induction rule: rtranclp_induct) (auto intro: search_step_inv [OF _ assms(2,3)])

lemma search_steps_measure:
  assumes "(search_step g self ^^ k) c c'" "agents_fixed g n" "2 \<le> n" "search_inv n (depth self) c"
  shows "search_inv n (depth self) c' \<and> call_measure n (depth self) c' + k = call_measure n (depth self) c"
  using assms(1)
proof (induction k arbitrary: c')
  case 0
  then show ?case using assms(4) by simp
next
  case (Suc k)
  from Suc.prems obtain c'' where k: "(search_step g self ^^ k) c c''" and st: "search_step g self c'' c'"
    by auto
  from Suc.IH [OF k] have "search_inv n (depth self) c''"
    "call_measure n (depth self) c'' + k = call_measure n (depth self) c" by simp_all
  with st search_step_inv [OF st assms(2,3)] search_step_measure [OF st assms(2,3)] show ?case by simp
qed

lemma root_call_inv:
  "root_call g s c \<Longrightarrow> 2 \<le> n \<Longrightarrow> 0 \<le> depth self \<Longrightarrow> search_inv n (depth self) c"
  by (auto simp: root_call_def search_inv_def)

text \<open>A search that returns has made every call the relation allows, with a result.\<close>

lemma minimax_step_returns:
  assumes "minimax g self s d i = Some v" "search_step g self (s, d, i) (s', d', i')"
  shows "\<exists>v'. minimax g self s' d' i' = Some v'"
  using assms(2)
proof (cases rule: search_step.cases)
  case (pacman a)
  then show ?thesis using assms(1) unfolding minimax.simps [of g self s d i]
    by (auto simp: search_cutoff_def dest: for_opt_SomeD)
next
  case (last_ghost a)
  then show ?thesis using assms(1) unfolding minimax.simps [of g self s d i]
    by (auto simp: search_cutoff_def dest!: for_opt_SomeD)
next
  case (next_ghost a)
  then show ?thesis using assms(1) unfolding minimax.simps [of g self s d i]
    by (auto simp: search_cutoff_def dest!: for_opt_SomeD)
qed

lemma minimax_root_SomeD:
  "minimax_root g self s as e r = Some res \<Longrightarrow> a \<in> set as \<Longrightarrow>
   \<exists>v. minimax g self (generateSuccessor g s 0 a) 0 1 = Some v"
  by (induction as arbitrary: e r) (auto split: Option.bind_splits if_splits)

section \<open>Properties\<close>

text \<open>
  C27: Invariant of the search: on a game with a fixed number \<open>n \<ge> 2\<close> of agents
  and a non-negative configured depth, every call reachable from the root loop is at a
  ply between 0 and the configured depth, with an agent index below \<open>n\<close>.
\<close>

theorem search_calls_invariant:
  assumes "agents_fixed g n" "2 \<le> n" "0 \<le> depth self" "root_call g s c"
    "(search_step g self)\<^sup>*\<^sup>* c c'"
  shows "search_inv n (depth self) c'"
  using search_steps_inv [OF assms(5,1,2) root_call_inv [OF assms(4,2,3)]] .

lemma tiny_step: "search_step tiny_game (tiny_agent 1) ([0], 0, 1) ([0, 1], 1, 0)"
proof -
  have "search_step tiny_game (tiny_agent 1) ([0], 0, 1) (generateSuccessor tiny_game [0] 1 1, 0 + 1, 0)"
    by (rule search_step.last_ghost) (simp_all add: search_cutoff_def search_simps)
  then show ?thesis by (simp add: tiny_game_def)
qed

lemma tiny_reach: "(search_step tiny_game (tiny_agent 1))\<^sup>*\<^sup>* ([0], 0, 1) ([0, 1], 1, 0)"
  using tiny_step by (rule r_into_rtranclp)

lemma tiny_root_call: "root_call tiny_game [] ([0], 0, 1)"
  by (simp add: root_call_def search_simps)

theorem search_calls_invariant_witness:
  "search_inv 2 (depth (tiny_agent 1)) ([0, 1::nat], 1, 0)"
  using search_calls_invariant [OF tiny_game_fixed order.refl _ tiny_root_call tiny_reach]
  by (simp add: search_simps)

text \<open>
  C28: Bound on the recursion: under the same conditions every chain of nested calls
  from the root loop is at most \<open>depth * n + n - 1\<close> calls long, the number of moves
  from the first ghost's turn at ply 0 to the cut-off.
\<close>

theorem search_recursion_bounded:
  assumes "agents_fixed g n" "2 \<le> n" "0 \<le> depth self" "root_call g s c"
    "(search_step g self ^^ k) c c'"
  shows "k \<le> nat (depth self) * n + (n - 1)"
proof -
  have "call_measure n (depth self) c' + k = call_measure n (depth self) c"
    using search_steps_measure [OF assms(5,1,2) root_call_inv [OF assms(4,2,3)]] by simp
  moreover have "call_measure n (depth self) c = nat (depth self) * n + (n - 1)"
    using assms(4) by (auto simp: root_call_def call_measure_def search_measure_def)
  ultimately show ?thesis by simp
qed

theorem search_recursion_bounded_witness:
  "(1::nat) \<le> nat (depth (tiny_agent 1)) * 2 + (2 - 1)"
proof -
  have "(search_step tiny_game (tiny_agent 1) ^^ 1) ([0], 0, 1) ([0, 1], 1, 0)"
    using tiny_step by (simp add: relcompp_apply)
  from search_recursion_bounded [OF tiny_game_fixed order.refl _ tiny_root_call this] show ?thesis
    by (simp add: search_simps)
qed

text \<open>
  C29: \<open>MinimaxAgent\<close> does not prune: when \<open>getAction\<close> returns, the search has
  returned at every call reachable from the root loop.
\<close>

theorem MinimaxAgent_explores_every_call:
  assumes "MinimaxAgent_getAction g self s = Some r" "root_call g s c" "(search_step g self)\<^sup>*\<^sup>* c c'"
  shows "\<exists>v. minimax g self (fst c') (fst (snd c')) (snd (snd c')) = Some v"
  using assms(3)
proof (induction rule: rtranclp_induct)
  case base
  then show ?case using assms(1,2) minimax_root_SomeD
    by (fastforce simp: root_call_def MinimaxAgent_getAction_def)
next
  case (step y z)
  then show ?case using minimax_step_returns [of g self "fst y" "fst (snd y)" "snd (snd y)"]
    by (cases y; cases z) auto
qed

theorem MinimaxAgent_explores_every_call_witness:
  "\<exists>v. minimax tiny_game (tiny_agent 1) [0, 1] 1 0 = Some v"
proof -
  have "MinimaxAgent_getAction tiny_game (tiny_agent 1) [] = Some (Some 1)"
    by (simp add: MinimaxAgent_getAction_def minimax.simps search_simps)
  from MinimaxAgent_explores_every_call [OF this tiny_root_call tiny_reach] show ?thesis by simp
qed

text \<open>
  C32: Turn order: under the same conditions as C27, after \<open>k\<close> nested calls from the
  root loop (which starts at the first ghost of ply 0) the agents have moved in
  round-robin order: the call is for agent \<open>(k + 1) mod n\<close> at ply \<open>(k + 1) div n\<close>.
\<close>

theorem search_turn_order:
  assumes "agents_fixed g n" "2 \<le> n" "0 \<le> depth self" "root_call g s c"
    "(search_step g self ^^ k) c (s', d', i')"
  shows "i' = (k + 1) mod n \<and> d' = int ((k + 1) div n)"
proof -
  have inv: "search_inv n (depth self) (s', d', i')"
    and m: "call_measure n (depth self) (s', d', i') + k = call_measure n (depth self) c"
    using search_steps_measure [OF assms(5,1,2) root_call_inv [OF assms(4,2,3)]] by simp_all
  have c: "call_measure n (depth self) c = nat (depth self) * n + (n - 1)"
    using assms(4) by (auto simp: root_call_def call_measure_def search_measure_def)
  from inv have d: "0 \<le> d'" "d' \<le> depth self" "i' < n" by (simp_all add: search_inv_def)
  obtain e where e: "d' = int e" using d(1) nonneg_int_cases by blast
  have eD: "e \<le> nat (depth self)" using d(2) e by simp
  have "nat (depth self - d') = nat (depth self) - e" using e by simp
  with m c have eq: "(nat (depth self) - e) * n + (n - i') + k = nat (depth self) * n + (n - 1)"
    by (simp add: call_measure_def search_measure_def)
  have split: "nat (depth self) * n = (nat (depth self) - e) * n + e * n"
    using eD by (simp add: add_mult_distrib [symmetric])
  have k: "k + 1 = i' + e * n" using eq split d(3) by linarith
  have "(k + 1) mod n = i'" unfolding k using d(3) by simp
  moreover have "(k + 1) div n = e" unfolding k using d(3) by simp
  ultimately have "(k + 1) mod n = i'" "(k + 1) div n = e" by simp_all
  with e show ?thesis by simp
qed

theorem search_turn_order_witness:
  "(0::nat) = (1 + 1) mod 2 \<and> (1::int) = int ((1 + 1) div 2)"
proof -
  have "(search_step tiny_game (tiny_agent 1) ^^ 1) ([0], 0, 1) ([0, 1], 1, 0)"
    using tiny_step by (simp add: relcompp_apply)
  from search_turn_order [OF tiny_game_fixed order.refl _ tiny_root_call this] show ?thesis
    by (simp add: search_simps)
qed

end
