(* ===== verification/AgentComparison.thy ===== *)
theory AgentComparison
  imports Minimax Expectimax
begin

text \<open>
  \<open>MinimaxAgent\<close> and \<open>ExpectimaxAgent\<close> compared on the same game: where the two
  searches explore the same tree (no terminal states, a move for every agent, so that
  the cut-off tests of \<open>minimax\<close> and of \<open>Max_Value\<close> agree), the expectimax value of a
  node is at least its minimax value, since a mean of the ghosts' replies is never
  below their minimum.
\<close>

text \<open>
  One node of each kind: given the comparison for its children, the comparison for the
  node. At Pacman's node both searches maximise; at a ghost's node the minimum of
  \<open>minimax\<close> is at most the mean of \<open>Min_Value\<close>.
\<close>

lemma max_node_le:
  assumes moves: "\<And>s i. getLegalActions g s i \<noteq> []"
    and nw: "\<And>s. \<not> isWin g s" and nl: "\<And>s. \<not> isLose g s"
    and lo: "\<And>c v. expectimax g self c = Some v \<Longrightarrow> - sentinel \<le> v"
    and nd: "d \<noteq> depth self"
    and a: "minimax g self s d 0 = Some a" and b: "expectimax g self (MaxValue s d) = Some b"
    and children: "\<And>x w v. x \<in> set (getLegalActions g s 0) \<Longrightarrow> minimax g self (generateSuccessor g s 0 x) d 1 = Some w \<Longrightarrow>
                     expectimax g self (MinValue (generateSuccessor g s 0 x) 1 d) = Some v \<Longrightarrow> w \<le> v"
  shows "a \<le> b"
proof -
  have mm: "for_opt (\<lambda>x. minimax g self (generateSuccessor g s 0 x) d 1) max (getLegalActions g s 0) (- sentinel) = Some a"
    using a nd nw nl by (simp add: minimax.simps [of g self s d 0])
  obtain vs where vs: "map_opt (\<lambda>x. expectimax g self (MinValue (generateSuccessor g s 0 x) 1 d)) (getLegalActions g s 0) = Some vs"
      and bv: "b = Max (set vs)"
    using b nd moves by (subst (asm) expectimax.simps) (auto split: Option.bind_splits)
  have "a \<le> Max (set vs)" by (rule for_opt_max_le_Max [OF mm vs moves children lo])
  then show ?thesis using bv by simp
qed

lemma min_node_le:
  assumes moves: "\<And>s i. getLegalActions g s i \<noteq> []"
    and nw: "\<And>s. \<not> isWin g s" and nl: "\<And>s. \<not> isLose g s"
    and N: "getNumAgents g s = n" and i: "0 < i" "i < n" and nd: "d \<noteq> depth self"
    and a: "minimax g self s d i = Some a" and b: "expectimax g self (MinValue s i d) = Some b"
    and children: "\<And>x w v. x \<in> set (getLegalActions g s i) \<Longrightarrow> (if i = n - 1 then minimax g self (generateSuccessor g s i x) (d + 1) 0
                              else minimax g self (generateSuccessor g s i x) d (i + 1)) = Some w \<Longrightarrow>
                     expectimax g self (if i = n - 1 then MaxValue (generateSuccessor g s i x) (d + 1)
                                         else MinValue (generateSuccessor g s i x) (i + 1) d) = Some v \<Longrightarrow> w \<le> v"
  shows "a \<le> b"
proof -
  let ?child = "\<lambda>x. if i = n - 1 then MaxValue (generateSuccessor g s i x) (d + 1)
                    else MinValue (generateSuccessor g s i x) (i + 1) d"
  let ?f = "\<lambda>x. if i = n - 1 then minimax g self (generateSuccessor g s i x) (d + 1) 0
                else minimax g self (generateSuccessor g s i x) d (i + 1)"
  have mm: "for_opt ?f min (getLegalActions g s i) sentinel = Some a"
    using a i nd nw nl N by (simp add: minimax.simps [of g self s d i])
  have "expectimax g self (MinValue s i d) =
      Option.bind (map_opt (\<lambda>x. expectimax g self (?child x)) (getLegalActions g s i))
        (\<lambda>vs. Some (sum_list vs / real (length (getLegalActions g s i))))"
    using i moves [of s i] N by (subst expectimax.simps) (cases "i = n - 1"; auto simp: Let_def)
  with b obtain vs where vs: "map_opt (\<lambda>x. expectimax g self (?child x)) (getLegalActions g s i) = Some vs"
      and bv: "b = sum_list vs / real (length (getLegalActions g s i))"
    by (auto split: Option.bind_splits)
  have "a \<le> sum_list vs / real (length vs)" by (rule for_opt_min_le_average [OF mm vs moves children])
  then show ?thesis using bv list_all2_lengthD [OF map_opt_SomeD [OF vs]] by simp
qed

text \<open>At the cut-off ply both searches evaluate Pacman's node.\<close>

lemma cut_node_eq:
  "d = depth self \<Longrightarrow> minimax g self s d 0 = Some (evaluationFunction self s) \<and>
     expectimax g self (MaxValue s d) = Some (evaluationFunction self s)"
  by (subst minimax.simps) (simp add: expectimax_unfold)

text \<open>The comparison for every node, by induction on the number of moves left.\<close>

lemma minimax_le_expectimax:
  assumes fixed: "agents_fixed g n" and two: "2 \<le> n"
    and moves: "\<And>s i. getLegalActions g s i \<noteq> []"
    and nw: "\<And>s. \<not> isWin g s" and nl: "\<And>s. \<not> isLose g s"
    and bound: "\<And>s. \<bar>evaluationFunction self s\<bar> \<le> sentinel"
  shows "i < n \<Longrightarrow> 0 \<le> d \<Longrightarrow> d \<le> depth self \<Longrightarrow> search_measure n (depth self) d i \<le> k \<Longrightarrow>
         (d = depth self \<longrightarrow> i = 0) \<Longrightarrow> minimax g self s d i = Some a \<Longrightarrow>
         expectimax g self (if i = 0 then MaxValue s d else MinValue s i d) = Some b \<Longrightarrow> a \<le> b"
proof (induction k arbitrary: s d i a b)
  case 0
  then show ?case by (simp add: search_measure_def)
next
  case (Suc k)
  have N: "getNumAgents g s = n" using fixed by (simp add: agents_fixed_def)
  have lo: "- sentinel \<le> v" if "expectimax g self c = Some v" for c v
    using expectimax_within [OF abs_le_bounds [OF bound] that] by simp
  show ?case
  proof (cases "d = depth self")
    case True
    then show ?thesis using cut_node_eq [of d self g s] Suc.prems by simp
  next
    case node: False
    let ?P = "\<lambda>s' d' i'. \<forall>w v. (d' = depth self \<longrightarrow> i' = 0) \<longrightarrow> minimax g self s' d' i' = Some w \<longrightarrow>
                expectimax g self (if i' = 0 then MaxValue s' d' else MinValue s' i' d') = Some v \<longrightarrow> w \<le> v"
    have child: "if i = 0 then ?P (generateSuccessor g s i x) d 1
                 else if i = getNumAgents g s - 1 then ?P (generateSuccessor g s i x) (d + 1) 0
                 else ?P (generateSuccessor g s i x) d (i + 1)"
      if "x \<in> set (getLegalActions g s i)" for x
      by (rule search_child_IH [where k = k, OF fixed two Suc.prems(1-3) _ _ _ that])
        (use Suc.prems node nw nl in \<open>auto simp: search_cutoff_def intro: Suc.IH\<close>)
    show ?thesis
    proof (cases "i = 0")
      case True
      show ?thesis
        by (rule max_node_le [OF moves nw nl lo node]) (use Suc.prems True child node in auto)
    next
      case False
      show ?thesis
        apply (rule min_node_le [OF moves nw nl N _ Suc.prems(1) node])
        using Suc.prems False apply simp_all [3]
        subgoal for x w v using child [of x] False N node by (cases "i = n - 1") auto
        done
    qed
  qed
qed

section \<open>Properties\<close>

text \<open>
  C34: On a game with a fixed number \<open>n \<ge> 2\<close> of agents, no terminal states, a move
  for every agent, a positive depth and evaluations within the sentinels, the value
  \<open>ExpectimaxAgent\<close> gives a root action (\<open>Min_Value\<close> of its successor) is at least
  the value \<open>MinimaxAgent\<close> gives it: averaging the ghosts' replies is optimistic.
\<close>

theorem MinimaxAgent_value_le_ExpectimaxAgent:
  assumes "agents_fixed g n" "2 \<le> n" "0 < depth self"
    and "\<And>s i. getLegalActions g s i \<noteq> []" "\<And>s. \<not> isWin g s" "\<And>s. \<not> isLose g s"
    and "\<And>s. \<bar>evaluationFunction self s\<bar> \<le> sentinel"
    and "minimax g self s 0 1 = Some a" "Min_Value g self s 1 0 = Some b"
  shows "a \<le> b"
  using minimax_le_expectimax [OF assms(1,2,4-7), of 1 0 "search_measure n (depth self) 0 1" s a b] assms(2,3,8,9)
  by (simp add: Min_Value_def)

theorem MinimaxAgent_value_le_ExpectimaxAgent_witness:
  "minimax endless_game (tiny_agent 1) [0] 0 1 = Some 3 \<and>
   Min_Value endless_game (tiny_agent 1) [0] 1 0 = Some (15 / 2) \<and> (3::real) \<le> 15 / 2"
proof -
  have h: "agents_fixed endless_game 2" "(2::nat) \<le> 2" "0 < depth (tiny_agent 1)"
    "\<And>s i. getLegalActions endless_game s i \<noteq> []" "\<And>s. \<not> isWin endless_game s"
    "\<And>s. \<not> isLose endless_game s" "\<And>s. \<bar>evaluationFunction (tiny_agent 1) s\<bar> \<le> sentinel"
    "minimax endless_game (tiny_agent 1) [0] 0 1 = Some 3"
    "Min_Value endless_game (tiny_agent 1) [0] 1 0 = Some (15 / 2)"
    by (simp_all add: agents_fixed_def Min_Value_def minimax.simps expectimax.simps search_simps)
  show ?thesis using MinimaxAgent_value_le_ExpectimaxAgent [OF h] h(8,9) by simp
qed

end
