(* ===== verification/Spec2Isabelle.thy ===== *)
theory Spec2Isabelle
  imports AlphaBeta Expectimax ReflexAgent Config SearchCalls AgentComparison
begin

text \<open>
  \<^bold>\<open>A verification library for \<open>src/multiAgents.py\<close>\<close> (UC Berkeley's Pacman
  multi-agent search project).

  \<^bold>\<open>The program.\<close> One Python module. Its parts: the evaluation functions
  (\<open>ReflexAgent.evaluationFunction\<close>, \<open>scoreEvaluationFunction\<close>,
  \<open>betterEvaluationFunction\<close>); the agents \<open>ReflexAgent\<close>, \<open>MinimaxAgent\<close>,
  \<open>AlphaBetaAgent\<close> and \<open>ExpectimaxAgent\<close>, whose \<open>getAction\<close> searches the
  game tree to a configured depth and scores the cut-off states with an evaluation
  function; and \<open>MultiAgentSearchAgent.__init__\<close>, which resolves the evaluation
  function by name and parses the depth. The game itself (\<open>pacman.py\<close>,
  \<open>game.py\<close>, \<open>util.py\<close>) is not part of the repository: the module only calls it.

  \<^bold>\<open>The theories.\<close>
  \<^item> \<open>Prelude\<close>: Python floats with infinities (\<open>xreal\<close>, a \<open>linorder\<close>
    instance), the \<open>GameState\<close> interface as a record of functions over an opaque
    state type (\<open>game\<close>: \<open>getLegalActions\<close>, \<open>generateSuccessor\<close>,
    \<open>getNumAgents\<close>, \<open>isWin\<close>, \<open>isLose\<close>, \<open>getScore\<close>, positions, food,
    ghosts, capsules), \<open>util.manhattanDistance\<close>, the agents' configuration
    (\<open>search_agent\<close>: \<open>index\<close>, \<open>evaluationFunction\<close>, \<open>depth\<close>), and the
    loops in the option monad (\<open>for_opt\<close>, \<open>map_opt\<close>) with the monotonicity rules
    that let \<^theory_text>\<open>partial_function (option)\<close> accept recursion through them, and
    \<open>argmax_loop_Some\<close>, the result of a root loop that keeps the first action of
    strictly greatest value, which the root loops of \<open>MinimaxAgent\<close> and
    \<open>ExpectimaxAgent\<close> instantiate.
  \<^item> \<open>GameTree\<close>: the abstract specification. Finite game trees \<open>mtree\<close>, their
    minimax value \<open>mm_val\<close> (with the source's sentinels \<open>\<plusminus>9999999\<close>), and the
    source's alpha-beta search restated on trees (\<open>ab_val\<close>). \<open>ab_fail_soft\<close>
    proves Knuth and Moore's fail-soft condition for it, for the source's variant that
    prunes on the strict test \<open>alpha > beta\<close>, from one lemma per pass of each loop
    (\<open>ab_maxs_step\<close>, \<open>ab_mins_step\<close>).
  \<^item> \<open>CallGraph\<close>: the call graph of the nested \<open>minimax\<close> (lines 155-186), which
    \<open>AlphaBetaAgent\<close> shares: the inductive relation \<open>search_step\<close> has one rule per
    recursive call of the source (Pacman's child, the last ghost's child one ply deeper,
    another ghost's child), equal to the executable list \<open>search_children\<close> of the
    loops; \<open>root_call\<close> are the calls of the root loop, \<open>search_measure\<close> the moves
    left before the cut-off. \<open>search_child_IH\<close> carries an induction on the fuel to
    every call a call makes; the refinements of \<open>Minimax\<close>, \<open>AlphaBeta\<close> and
    \<open>AgentComparison\<close> use it.
  \<^item> \<open>Minimax\<close>: \<open>MinimaxAgent.getAction\<close> (lines 130-186): the nested
    \<open>minimax\<close> as a \<^theory_text>\<open>partial_function (option)\<close> (\<open>None\<close> is a search that
    never returns), the root loop \<open>minimax_root\<close>, \<open>game_tree\<close>, the tree the
    search explores, unfolded with fuel, and \<open>minimax_evals\<close>, the search with the
    log of the states it passes to \<open>self.evaluationFunction\<close>.
  \<^item> \<open>AlphaBeta\<close>: \<open>AlphaBetaAgent.getAction\<close> (lines 194-242): the loops with
    their early exit (\<open>ab_max_loop\<close>, \<open>ab_min_loop\<close>), the nested search
    \<open>alphabeta\<close> and the root loop \<open>alphabeta_root\<close> with its early return; the
    search and its loops with the log of evaluated states (\<open>alphabeta_evals\<close>,
    \<open>ab_max_evals\<close>, \<open>ab_min_evals\<close>), compared with \<open>minimax_evals\<close> by an
    induction on the fuel (\<open>evals_game_tree\<close>).
  \<^item> \<open>Expectimax\<close>: \<open>ExpectimaxAgent\<close> (lines 251-290). The mutually recursive
    methods \<open>Max_Value\<close> and \<open>Min_Value\<close> are the two kinds of call (\<open>ex_call\<close>)
    of one \<^theory_text>\<open>partial_function (option)\<close> \<open>expectimax\<close>; \<open>expectimax_root\<close>
    is the loop of \<open>getAction\<close>, which starts at \<open>float('-inf')\<close> (\<open>NegInf\<close>).
    \<open>ex_tree\<close> unfolds the search into an expectimax tree (\<open>etree\<close>, value
    \<open>ex_val\<close>: maximum for Pacman, mean for the ghosts). One call is a leaf
    (\<open>ex_leaf\<close>) or the combination (\<open>ex_combine\<close>) of the values of its calls
    (\<open>ex_children\<close>); \<open>expectimax_induct\<close>, derived from the fixpoint induction of
    \<open>expectimax\<close>, is the induction over the calls of a search that returned.
  \<^item> \<open>Evaluation\<close>: the evaluation functions (lines 54-103 and 292-336).
    \<open>ReflexAgent_evaluationFunction\<close> returns \<open>py_error + xreal\<close>: the nearest-food
    loop \<open>nearest_food\<close> starts at \<open>float('inf')\<close>, and \<open>1.0/distance\<close>
    (\<open>py_recip\<close>) is 0 for an infinite distance and raises \<open>ZeroDivisionError\<close> for
    distance 0. \<open>betterEvaluationFunction\<close> is a real-valued function of the state.
  \<^item> \<open>ReflexAgent\<close>: \<open>ReflexAgent.getAction\<close> (lines 32-52). The list
    comprehension of scores propagates the first exception (\<open>map_err\<close> of the
    prelude), \<open>max\<close> of no scores raises \<open>ValueError\<close>, and the result is the list
    of best moves \<open>random.choice\<close> picks from uniformly.
  \<^item> \<open>Config\<close>: \<open>MultiAgentSearchAgent.__init__\<close> (lines 120-123) with
    \<open>util.lookup\<close> over all the module's globals (\<open>multiAgents_globals\<close>: the
    imports, the classes, the functions, the abbreviation \<open>better\<close> of line 339 and
    the attributes Python 3 gives a module; \<open>py_global\<close> tells the three evaluation
    functions from the other objects) and Python's \<open>int\<close> on decimal strings (sign,
    surrounding whitespace, underscores between digits). \<open>__init__\<close> returns the
    attributes it sets (\<open>agent_attrs\<close>); \<open>configured_agent\<close> is the search agent
    they make when the stored object is an evaluation function. \<open>util.lookup\<close> and
    \<open>int\<close> are not in \<open>src/\<close> and are modelled from their documented behaviour.
  \<^item> \<open>SearchCalls\<close>: the calls of \<open>CallGraph\<close> reachable from the root loop, by
    rule induction over the relation and its powers.
  \<^item> \<open>AgentComparison\<close>: \<open>minimax\<close> against \<open>expectimax\<close> on the same game, by
    induction on the number of moves left, node by node with the loop lemmas of the
    prelude (\<open>for_opt_max_le_Max\<close>, \<open>for_opt_min_le_average\<close>).
  \<^item> \<open>ExampleGames\<close>: small concrete games on which the theorems are instantiated.

  \<^bold>\<open>What is proved.\<close> On a game whose number of agents \<open>n \<ge> 2\<close> is the same in
  every state (\<open>agents_fixed\<close>) and a non-negative configured depth:
  both searches return (C3, C5), the pruning search satisfies the fail-soft condition
  against \<open>minimax\<close> for every window (C2), for any window the states it passes to
  the evaluation function are, in order, a subsequence of those \<open>minimax\<close> passes,
  and a cut skips the remaining children (C15, on the searches with their evaluations
  logged: \<open>minimax_evals\<close>, \<open>alphabeta_evals\<close>), and when no evaluation exceeds
  the sentinel the two agents choose the same action (C1, below). \<open>MinimaxAgent\<close> returns the first action of greatest
  value (C4) and at depth 0 compares the evaluations of the successors (C6).

  For \<open>ExpectimaxAgent\<close>, on a game with a fixed number \<open>n \<ge> 1\<close> of agents and a
  positive depth: \<open>getAction\<close> returns (C10), and every value returned lies within the range of
  the evaluation function (C11, by fixpoint induction, without a termination
  argument). On the spec's one-ply tree with one ghost, a ghost's node is worth
  the minimum of its successors' evaluations to \<open>minimax\<close> and their mean to
  \<open>Min_Value\<close>, strictly less exactly when they are not all equal (C13).

  For the reflex agent: the evaluation on every branch, with the division by zero when
  Pacman stands on food (C14); the candidates of \<open>getAction\<close> are exactly the legal moves of best evaluation (C18), no
  move raises \<open>ValueError\<close> (C19) and one raising evaluation makes the agent raise
  (C20). For \<open>betterEvaluationFunction\<close>: the sign of the ghost-distance term flips
  with the scared timers (C16), and only the farthest pellet counts (C17). For the
  configuration: each evaluation function name configures its function (C21), exactly
  the names the module does not bind raise, and its other globals are accepted as
  evaluation functions they are not (C22), and a
  negative depth makes all three search agents diverge on an endless game (C23).

  With evaluations within the sentinels and moves in every non-terminal state,
  \<open>minimax\<close> refines the textbook minimax value \<open>mm_spec\<close> (Max and Min without
  sentinels, C24). Every agent returns only legal actions (C25); \<open>ExpectimaxAgent\<close>
  returns the first action of greatest value whenever Pacman has a move (C26). On the
  call graph: every reachable call keeps ply and agent index in range (C27), chains of
  nested calls are at most \<open>depth * n + n - 1\<close> long, so never infinite (C28),
  \<open>MinimaxAgent\<close> returns at every reachable call (C29), and the agents move in
  round-robin order with the ply counting completed rounds (C32). The reflex agent
  takes a win when one exists (C30) and never walks into an unscared ghost when it has
  another option (C31). Where the two searches explore the same tree, the expectimax
  value of a root action is at least its minimax value (C34). \<open>MinimaxAgent\<close>
  returns its initial non-action \<open>''\<close> exactly when no root action's value exceeds
  \<open>-9999999\<close>, \<open>ExpectimaxAgent\<close> its \<open>None\<close> exactly when Pacman has no
  move (C35).

  \<^bold>\<open>Fuel and bounds.\<close> \<open>game_tree\<close> takes fuel; \<open>search_measure n D d i =
  nat (D - d) * n + (n - i)\<close>, the number of moves before the cut-off, is enough, since
  every recursive call lowers it by one. It needs \<open>n \<ge> 2\<close>: with one agent the ply
  counter never advances and the search does not return (C8). For expectimax,
  \<open>ex_measure\<close> plays the same role and needs \<open>n \<ge> 1\<close> and a positive depth.

  \<^bold>\<open>What the modelling showed.\<close> An agent without legal moves at a node that is
  not a cut-off yields the sentinel instead of an evaluation (C7). The root loop of
  \<open>AlphaBetaAgent\<close> returns early when a child's value exceeds \<open>9999999\<close>, so with
  evaluations beyond the sentinel it returns the first such action where
  \<open>MinimaxAgent\<close> goes on to a better one (C9).
  \<open>ExpectimaxAgent\<close> with depth 0 never reaches its cut-off, since the first depth
  test happens at depth 1 (C12); its \<open>Max_Value\<close> does not test \<open>isWin\<close> or
  \<open>isLose\<close> and relies on terminal states having no legal move. The reflex
  evaluation divides by the distance to the nearest pellet and relies on the simulator
  removing an eaten pellet (C14). \<open>betterEvaluationFunction\<close> rewards the reciprocal
  of the distance to the farthest pellet, not the nearest (C17). A negative depth is
  accepted by the constructor and makes every search run until the game ends (C23).
  \<open>Max_Value\<close> searches on past a won state that still has moves and returns a
  ghost's value where \<open>minimax\<close> returns the evaluation (C33). \<open>__init__\<close>
  accepts the name of any module global, not only of an evaluation function (C22).
  \<open>MinimaxAgent\<close> can return \<open>''\<close>, which is not a move, although Pacman has
  legal moves, when every value is at most the sentinel (C35). The spec's expectation
  that the root values of minimax and expectimax differ whenever a ghost's node has
  non-uniform values does not hold: Pacman's maximum can come from a node whose values
  are uniform (\<open>root_values_agree_despite_chance_node\<close>).

  \<^bold>\<open>Not modelled.\<close> Python float rounding (floats are exact reals, with the
  infinities where the code uses them); the simulator behind the \<open>GameState\<close>
  interface; \<open>random.choice\<close> is modelled as the list of candidates it picks from;
  \<open>util.lookup\<close> of dotted module names and of the attributes of imported
  modules (Python 2's search through \<open>random\<close> and \<open>util\<close>; under Python 3 the
  module test of \<open>lookup\<close> never holds); \<open>int\<close> on non-ASCII digits and on bases
  other than 10; what an agent configured with a global that is not an evaluation
  function does when it evaluates a state (Python raises \<open>TypeError\<close> there).
\<close>

text \<open>
  C1: On a game with a fixed number of at least two agents, a non-negative configured
  depth and an evaluation function that never exceeds the sentinel \<open>9999999\<close>,
  \<open>AlphaBetaAgent.getAction\<close> returns exactly what \<open>MinimaxAgent.getAction\<close> returns:
  pruning never changes the chosen action.
\<close>

theorem AlphaBetaAgent_agrees_with_MinimaxAgent:
  assumes "agents_fixed g n" "2 \<le> n" "0 \<le> depth self" "\<And>s. evaluationFunction self s \<le> sentinel"
  shows "AlphaBetaAgent_getAction g self s = MinimaxAgent_getAction g self s"
  unfolding AlphaBetaAgent_getAction_def MinimaxAgent_getAction_def
  using alphabeta_root_minimax_root [OF assms] by simp

theorem AlphaBetaAgent_agrees_with_MinimaxAgent_witness:
  "agents_fixed tiny_game 2 \<and> 0 \<le> depth (tiny_agent 1) \<and>
   (\<forall>s. evaluationFunction (tiny_agent 1) s \<le> sentinel) \<and>
   AlphaBetaAgent_getAction tiny_game (tiny_agent 1) [] = MinimaxAgent_getAction tiny_game (tiny_agent 1) [] \<and>
   MinimaxAgent_getAction tiny_game (tiny_agent 1) [] = Some (Some 1)"
proof -
  have bound: "\<And>s. evaluationFunction (tiny_agent 1) s \<le> sentinel"
    by (simp add: tiny_agent_def tiny_eval_def)
  have "AlphaBetaAgent_getAction tiny_game (tiny_agent 1) [] = MinimaxAgent_getAction tiny_game (tiny_agent 1) []"
    by (rule AlphaBetaAgent_agrees_with_MinimaxAgent [OF tiny_game_fixed _ _ bound]) (simp_all add: tiny_agent_def)
  moreover have "MinimaxAgent_getAction tiny_game (tiny_agent 1) [] = Some (Some 1)"
    by (simp add: MinimaxAgent_getAction_def minimax.simps search_simps)
  ultimately show ?thesis using bound by (simp add: tiny_game_fixed tiny_agent_def)
qed

text \<open>
  C9: The hypothesis on the evaluations in C1 is needed. When the first root action's
  value exceeds \<open>beta = 9999999\<close>, \<open>AlphaBetaAgent\<close> returns that action at once,
  whatever the other actions are worth (or whether their searches return); if a later
  action has a greater minimax value, \<open>MinimaxAgent\<close> does not return it.
\<close>

theorem AlphaBetaAgent_returns_above_sentinel:
  assumes legal: "getLegalActions g s 0 = a # as"
    and ab: "alphabeta g self (generateSuccessor g s 0 a) 0 (- sentinel) sentinel 1 = Some r"
    and above: "sentinel < r"
  shows "AlphaBetaAgent_getAction g self s = Some (Some a) \<and>
         (\<forall>va b w. minimax g self (generateSuccessor g s 0 a) 0 1 = Some va \<longrightarrow> b \<in> set as \<longrightarrow>
            minimax g self (generateSuccessor g s 0 b) 0 1 = Some w \<longrightarrow> va < w \<longrightarrow>
            MinimaxAgent_getAction g self s \<noteq> Some (Some a))"
proof
  show "AlphaBetaAgent_getAction g self s = Some (Some a)"
    using ab above by (simp add: AlphaBetaAgent_getAction_def legal Let_def)
  show "\<forall>va b w. minimax g self (generateSuccessor g s 0 a) 0 1 = Some va \<longrightarrow> b \<in> set as \<longrightarrow>
      minimax g self (generateSuccessor g s 0 b) 0 1 = Some w \<longrightarrow> va < w \<longrightarrow>
      MinimaxAgent_getAction g self s \<noteq> Some (Some a)"
  proof (intro allI impI notI)
    fix va b w
    assume va: "minimax g self (generateSuccessor g s 0 a) 0 1 = Some va" and b: "b \<in> set as"
      and w: "minimax g self (generateSuccessor g s 0 b) 0 1 = Some w" and lt: "va < w"
      and res: "MinimaxAgent_getAction g self s = Some (Some a)"
    from res have "minimax_root g self s (a # as) (- sentinel) None = Some (Some a)"
      by (simp add: MinimaxAgent_getAction_def legal)
    from Minimax.minimax_root_Some [OF this] obtain pre post v where eq: "a # as = pre @ a # post"
      and v: "minimax g self (generateSuccessor g s 0 a) 0 1 = Some v"
      and pre: "\<forall>c\<in>set pre. \<exists>w. minimax g self (generateSuccessor g s 0 c) 0 1 = Some w \<and> w < v"
      and post: "\<forall>c\<in>set post. \<exists>w. minimax g self (generateSuccessor g s 0 c) 0 1 = Some w \<and> w \<le> v"
      by auto
    have "\<forall>c\<in>set (pre @ a # post). \<exists>w'. minimax g self (generateSuccessor g s 0 c) 0 1 = Some w' \<and> w' \<le> v"
      using pre post v by (fastforce dest: less_imp_le)
    then have "\<exists>w'. minimax g self (generateSuccessor g s 0 b) 0 1 = Some w' \<and> w' \<le> v"
      using b unfolding eq [symmetric] by simp
    with w va v lt show False by auto
  qed
qed

theorem AlphaBetaAgent_returns_above_sentinel_witness:
  "AlphaBetaAgent_getAction tiny_game sentinel_agent [] = Some (Some 0) \<and>
   MinimaxAgent_getAction tiny_game sentinel_agent [] \<noteq> Some (Some 0)"
proof -
  have h: "getLegalActions tiny_game [] 0 = 0 # [1]"
    "alphabeta tiny_game sentinel_agent (generateSuccessor tiny_game [] 0 0) 0 (- sentinel) sentinel 1 = Some 10000000"
    "sentinel < (10000000::real)"
    by (simp_all add: alphabeta.simps search_simps)
  have m: "minimax tiny_game sentinel_agent (generateSuccessor tiny_game [] 0 0) 0 1 = Some 10000000"
    "minimax tiny_game sentinel_agent (generateSuccessor tiny_game [] 0 1) 0 1 = Some 20000000"
    unfolding minimax.simps [of tiny_game sentinel_agent "generateSuccessor tiny_game [] 0 0" 0 1]
      minimax.simps [of tiny_game sentinel_agent "generateSuccessor tiny_game [] 0 1" 0 1]
    by (simp_all add: search_simps)
  from AlphaBetaAgent_returns_above_sentinel [OF h] m show ?thesis by auto
qed

text \<open>
  C13: The spec's one-ply, one-adversary tree: on a game of Pacman and one ghost
  searched one ply deep, a ghost's node with moves, not won or lost, is worth the
  minimum of the evaluations of its successors for \<open>MinimaxAgent\<close> (\<open>minimax\<close>) and
  their mean for \<open>ExpectimaxAgent\<close> (\<open>Min_Value\<close>); the minimum lies strictly below
  the mean exactly when the successors' evaluations are not all equal.
\<close>

theorem one_ply_ghost_min_and_mean:
  assumes fixed: "agents_fixed g 2" and D: "depth self = 1"
    and nw: "\<not> isWin g s" and nl: "\<not> isLose g s" and moves: "getLegalActions g s 1 \<noteq> []"
    and bound: "\<forall>b\<in>set (getLegalActions g s 1). evaluationFunction self (generateSuccessor g s 1 b) \<le> sentinel"
  shows "let vs = map (\<lambda>b. evaluationFunction self (generateSuccessor g s 1 b)) (getLegalActions g s 1) in
         minimax g self s 0 1 = Some (Min (set vs)) \<and>
         Min_Value g self s 1 0 = Some (sum_list vs / real (length vs)) \<and>
         (Min (set vs) < sum_list vs / real (length vs) \<longleftrightarrow> (\<exists>v\<in>set vs. v \<noteq> hd vs))"
proof -
  let ?vs = "map (\<lambda>b. evaluationFunction self (generateSuccessor g s 1 b)) (getLegalActions g s 1)"
  have N: "getNumAgents g s = 2" using fixed by (simp add: agents_fixed_def)
  have mm: "minimax g self s' 1 0 = Some (evaluationFunction self s')" for s'
    using D by (subst minimax.simps) simp
  have ex: "expectimax g self (MaxValue s' 1) = Some (evaluationFunction self s')" for s'
    using D by (subst expectimax.simps) simp
  have "minimax g self s 0 1 = Some (foldl min sentinel ?vs)"
    using nw nl D N by (subst minimax.simps) (simp add: mm)
  moreover have "foldl min sentinel ?vs = Min (set ?vs)"
    using moves bound unfolding foldl_min_Min list.set(2)
    by (intro Min_insert_above [where y = "hd ?vs"]) (auto simp: neq_Nil_conv)
  moreover have "Min_Value g self s 1 0 = Some (sum_list ?vs / real (length ?vs))"
    unfolding Min_Value_def using moves N by (subst expectimax.simps) (simp add: ex Let_def)
  ultimately show ?thesis using Min_less_average_iff [of ?vs] moves by (simp add: Let_def)
qed

theorem one_ply_ghost_min_and_mean_witness:
  "minimax tiny_game (tiny_agent 1) [0] 0 1 = Some 3 \<and> Min_Value tiny_game (tiny_agent 1) [0] 1 0 = Some (15 / 2) \<and>
   (3::real) < 15 / 2"
proof -
  have "agents_fixed tiny_game 2" "depth (tiny_agent 1) = 1" "\<not> isWin tiny_game [0]" "\<not> isLose tiny_game [0]"
    "getLegalActions tiny_game [0] 1 \<noteq> []"
    "\<forall>b\<in>set (getLegalActions tiny_game [0] 1). evaluationFunction (tiny_agent 1) (generateSuccessor tiny_game [0] 1 b) \<le> sentinel"
    by (simp_all add: agents_fixed_def search_simps)
  from one_ply_ghost_min_and_mean [OF this] show ?thesis by (simp add: search_simps)
qed

text \<open>
  The spec also expects the root values of the two agents to differ on every tree with
  a chance node whose values are not uniform. They need not: with \<open>uniform_agent\<close> the
  ghost's node after Pacman's move 0 is worth 3 to \<open>minimax\<close> and 7.5 to
  \<open>Min_Value\<close>, but the node after move 1 is worth 8 to both, so both agents value the
  root at 8 and choose move 1.
\<close>

theorem root_values_agree_despite_chance_node:
  "minimax tiny_game uniform_agent [0] 0 1 = Some 3 \<and> Min_Value tiny_game uniform_agent [0] 1 0 = Some (15 / 2) \<and>
   minimax tiny_game uniform_agent [1] 0 1 = Some 8 \<and> Min_Value tiny_game uniform_agent [1] 1 0 = Some 8 \<and>
   MinimaxAgent_getAction tiny_game uniform_agent [] = Some (Some 1) \<and>
   ExpectimaxAgent_getAction tiny_game uniform_agent [] = Some (Some 1)"
  by (simp add: MinimaxAgent_getAction_def ExpectimaxAgent_getAction_def Min_Value_def
      minimax.simps expectimax.simps search_simps)

text \<open>
  C23: A search agent configured with a negative depth string, e.g. \<open>depth='-1'\<close>,
  passes the cut-off ply without ever meeting \<open>depth == self.depth\<close>: in a game that
  never ends and where every agent always has a move, none of \<open>MinimaxAgent\<close>,
  \<open>AlphaBetaAgent\<close> and \<open>ExpectimaxAgent\<close> returns from \<open>getAction\<close>.
\<close>

theorem search_agents_negative_depth_diverge:
  assumes init: "MultiAgentSearchAgent_init g evalFn depthStr = Inr attrs" "configured_agent attrs = Some self"
    and d: "py_int depthStr = Inr d" "d < 0"
    and moves: "\<And>s i. getLegalActions g s i \<noteq> []"
    and nw: "\<And>s. \<not> isWin g s" and nl: "\<And>s. \<not> isLose g s"
  shows "MinimaxAgent_getAction g self s = None \<and> AlphaBetaAgent_getAction g self s = None \<and>
         ExpectimaxAgent_getAction g self s = None"
proof -
  have neg: "depth self < 0"
    using Config.MultiAgentSearchAgent_init_depth [OF init(1) d(1)] Config.configured_agent_depth [OF init(2)] d(2)
    by simp
  obtain a as where legal: "getLegalActions g s 0 = a # as"
    using moves by (cases "getLegalActions g s 0") auto
  have "minimax g self (generateSuccessor g s 0 a) 0 1 = None"
    using Minimax.minimax_past_depth_None [OF moves nw nl] neg by blast
  moreover have "alphabeta g self (generateSuccessor g s 0 a) 0 (- sentinel) sentinel 1 = None"
    using AlphaBeta.alphabeta_past_depth_None [OF moves nw nl] neg by blast
  moreover have "ExpectimaxAgent_getAction g self s = None"
    using neg moves by (intro Expectimax.ExpectimaxAgent_getAction_None) simp_all
  ultimately show ?thesis using legal by (simp add: MinimaxAgent_getAction_def AlphaBetaAgent_getAction_def)
qed

theorem search_agents_negative_depth_diverge_witness:
  "MinimaxAgent_getAction (tiny_game\<lparr>getLegalActions := \<lambda>s i. [0, 1]\<rparr>)
      \<lparr>index = 0, evaluationFunction = betterEvaluationFunction (tiny_game\<lparr>getLegalActions := \<lambda>s i. [0, 1]\<rparr>), depth = -1\<rparr> [] = None \<and>
   ExpectimaxAgent_getAction (tiny_game\<lparr>getLegalActions := \<lambda>s i. [0, 1]\<rparr>)
      \<lparr>index = 0, evaluationFunction = betterEvaluationFunction (tiny_game\<lparr>getLegalActions := \<lambda>s i. [0, 1]\<rparr>), depth = -1\<rparr> [] = None"
proof -
  let ?g = "tiny_game\<lparr>getLegalActions := \<lambda>s i. [0, 1::nat]\<rparr>"
  let ?a = "\<lparr>attr_index = 0, attr_evaluationFunction = PyEvalFn (betterEvaluationFunction ?g), attr_depth = -1\<rparr>"
  have h: "MultiAgentSearchAgent_init ?g ''better'' ''-1'' = Inr ?a"
    "configured_agent ?a = Some \<lparr>index = 0, evaluationFunction = betterEvaluationFunction ?g, depth = -1\<rparr>"
    "py_int ''-1'' = Inr (-1)" "(-1::int) < 0" "\<And>s i. getLegalActions ?g s i \<noteq> []"
    "\<And>s. \<not> isWin ?g s" "\<And>s. \<not> isLose ?g s"
    by (simp_all add: MultiAgentSearchAgent_init_def lookup_def multiAgents_globals_def py_int_def configured_agent_def
        py_strip_def py_digits_def is_py_space_def is_digit_def digit_val_def search_simps)
  show ?thesis using search_agents_negative_depth_diverge [OF h, of "[]"] by blast
qed

text \<open>
  C25: Every agent plays by the rules: an action returned by \<open>MinimaxAgent\<close>,
  \<open>AlphaBetaAgent\<close> or \<open>ExpectimaxAgent\<close>, and every candidate \<open>ReflexAgent\<close>
  picks from, is one of Pacman's legal actions in the state, on any game.
\<close>

theorem agents_choose_legal_actions:
  "(MinimaxAgent_getAction g self s = Some (Some a) \<longrightarrow> a \<in> set (getLegalActions g s 0)) \<and>
   (AlphaBetaAgent_getAction g self s = Some (Some b) \<longrightarrow> b \<in> set (getLegalActions g s 0)) \<and>
   (ExpectimaxAgent_getAction g self s = Some (Some c) \<longrightarrow> c \<in> set (getLegalActions g s 0)) \<and>
   (ReflexAgent_getAction g s = Inr cs \<longrightarrow> set cs \<subseteq> set (getLegalActions g s 0))"
  using Minimax.minimax_root_legal [of g self s "getLegalActions g s 0" "- sentinel" None a]
    AlphaBeta.alphabeta_root_legal [of g self s "getLegalActions g s 0" "- sentinel" "- sentinel" sentinel None b]
    Expectimax.expectimax_root_legal [of g self s "getLegalActions g s 0" NegInf None c]
    ReflexAgent.ReflexAgent_getAction_legal [of g s cs]
  by (simp add: MinimaxAgent_getAction_def AlphaBetaAgent_getAction_def ExpectimaxAgent_getAction_def)

theorem agents_choose_legal_actions_witness:
  "MinimaxAgent_getAction tiny_game (tiny_agent 1) [] = Some (Some 1) \<and>
   AlphaBetaAgent_getAction tiny_game (tiny_agent 1) [] = Some (Some 1) \<and>
   ExpectimaxAgent_getAction tiny_game (tiny_agent 1) [] = Some (Some 0) \<and>
   ReflexAgent_getAction tiny_game [] = Inr [0, 1] \<and>
   {0, 1} \<subseteq> set (getLegalActions tiny_game [] 0)"
proof -
  have h: "MinimaxAgent_getAction tiny_game (tiny_agent 1) [] = Some (Some 1)"
    "AlphaBetaAgent_getAction tiny_game (tiny_agent 1) [] = Some (Some 1)"
    "ExpectimaxAgent_getAction tiny_game (tiny_agent 1) [] = Some (Some 0)"
    "ReflexAgent_getAction tiny_game [] = Inr [0, 1]"
    by (simp_all add: MinimaxAgent_getAction_def AlphaBetaAgent_getAction_def ExpectimaxAgent_getAction_def
        Min_Value_def minimax.simps alphabeta.simps expectimax.simps search_simps
        ReflexAgent_getAction_def ReflexAgent_bestIndices_def ReflexAgent_evaluationFunction_def
        generatePacmanSuccessor_def nearest_food_def)
  have "1 \<in> set (getLegalActions tiny_game [] 0) \<and> 0 \<in> set (getLegalActions tiny_game [] 0)"
    using agents_choose_legal_actions [of tiny_game "tiny_agent 1" "[]" 1 1 0 "[0, 1]"] h by simp
  with h show ?thesis by simp
qed

text \<open>
  C33: \<open>ExpectimaxAgent.Max_Value\<close> never tests \<open>isWin\<close> or \<open>isLose\<close>: on a won
  state before the cut-off where Pacman still has moves, \<open>minimax\<close> returns the
  evaluation of the state, but \<open>Max_Value\<close> searches on and returns the value of one
  of the ghosts' searches below it.
\<close>

theorem Max_Value_searches_past_win:
  assumes win: "isWin g s" and nd: "d \<noteq> depth self" and moves: "getLegalActions g s 0 \<noteq> []"
    and ret: "Max_Value g self s d = Some v"
  shows "minimax g self s d 0 = Some (evaluationFunction self s) \<and>
         (\<exists>a\<in>set (getLegalActions g s 0). Min_Value g self (generateSuccessor g s 0 a) 1 d = Some v)"
proof
  show "minimax g self s d 0 = Some (evaluationFunction self s)" using win by (subst minimax.simps) simp
  from ret nd moves obtain vs
    where vs: "map_opt (\<lambda>a. Min_Value g self (generateSuccessor g s 0 a) 1 d) (getLegalActions g s 0) = Some vs"
      and v: "v = Max (set vs)"
    by (auto simp: Max_Value_eq split: Option.bind_splits)
  have all: "list_all2 (\<lambda>a w. Min_Value g self (generateSuccessor g s 0 a) 1 d = Some w) (getLegalActions g s 0) vs"
    using map_opt_SomeD [OF vs] .
  with moves have "vs \<noteq> []" by (auto dest: list_all2_lengthD)
  then have "v \<in> set vs" using v by simp
  with list_all2_in_set2 [OF all] show "\<exists>a\<in>set (getLegalActions g s 0). Min_Value g self (generateSuccessor g s 0 a) 1 d = Some v"
    by blast
qed

theorem Max_Value_searches_past_win_witness:
  "Max_Value won_game (tiny_agent 2) [0, 1] 1 = Some 0 \<and> minimax won_game (tiny_agent 2) [0, 1] 1 0 = Some 12"
proof -
  have h: "isWin won_game [0, 1]" "1 \<noteq> depth (tiny_agent 2)" "getLegalActions won_game [0, 1] 0 \<noteq> []"
    "Max_Value won_game (tiny_agent 2) [0, 1] 1 = Some 0"
    by (simp_all add: Max_Value_def expectimax.simps search_simps)
  from Max_Value_searches_past_win [OF h] h(4) show ?thesis by (simp add: search_simps)
qed

text \<open>
  C35: The type of the result of \<open>getAction\<close>. \<open>MinimaxAgent\<close> returns its initial
  \<open>resultAction = ''\<close>, which is no action, exactly when no root action's value
  exceeds \<open>-9999999\<close>, even when Pacman has legal moves; \<open>ExpectimaxAgent\<close>, whose
  loop starts at \<open>float('-inf')\<close>, returns its initial \<open>None\<close> exactly when Pacman
  has no legal move.
\<close>

theorem getAction_returns_no_action:
  "(MinimaxAgent_getAction g self s = Some r \<longrightarrow>
      (r = None \<longleftrightarrow> (\<forall>a\<in>set (getLegalActions g s 0).
                      \<exists>v. minimax g self (generateSuccessor g s 0 a) 0 1 = Some v \<and> v \<le> - sentinel))) \<and>
   (ExpectimaxAgent_getAction g self s = Some r' \<longrightarrow> (r' = None \<longleftrightarrow> getLegalActions g s 0 = []))"
proof (intro conjI impI)
  assume "MinimaxAgent_getAction g self s = Some r"
  from Minimax.minimax_root_Some [OF this [unfolded MinimaxAgent_getAction_def]]
  show "r = None \<longleftrightarrow> (\<forall>a\<in>set (getLegalActions g s 0).
          \<exists>v. minimax g self (generateSuccessor g s 0 a) 0 1 = Some v \<and> v \<le> - sentinel)"
    by (elim disjE exE conjE) (fastforce simp: not_le)+
next
  assume "ExpectimaxAgent_getAction g self s = Some r'"
  from Expectimax.expectimax_root_Some [OF this [unfolded ExpectimaxAgent_getAction_def]]
  show "r' = None \<longleftrightarrow> getLegalActions g s 0 = []"
    by (elim disjE exE conjE) (auto simp: neq_Nil_conv)
qed

theorem getAction_returns_no_action_witness:
  "MinimaxAgent_getAction tiny_game low_agent [] = Some None \<and>
   ExpectimaxAgent_getAction tiny_game low_agent [] = Some (Some 0) \<and>
   getLegalActions tiny_game [] 0 \<noteq> [] \<and>
   (\<exists>v. minimax tiny_game low_agent [0] 0 1 = Some v \<and> v \<le> - sentinel)"
proof -
  have m: "MinimaxAgent_getAction tiny_game low_agent [] = Some None"
    and e: "ExpectimaxAgent_getAction tiny_game low_agent [] = Some (Some 0)"
    by (simp_all add: MinimaxAgent_getAction_def ExpectimaxAgent_getAction_def Min_Value_def
        minimax.simps expectimax.simps search_simps)
  have "\<forall>a\<in>set (getLegalActions tiny_game [] 0).
          \<exists>v. minimax tiny_game low_agent (generateSuccessor tiny_game [] 0 a) 0 1 = Some v \<and> v \<le> - sentinel"
    using getAction_returns_no_action [of tiny_game low_agent "[]" None "Some 0"] m e by simp
  then show ?thesis using m e by (simp add: search_simps)
qed

end
